theory Spec2Isabelle
  imports Main "HOL-Library.AList" "HOL-Library.Sublist"
begin

section \<open>JavaScript values\<close>

text \<open>
  The ledger stores, hashes and compares dynamically typed values: payloads are opaque,
  \<open>previousHash\<close> is the number \<open>-1\<close> for the genesis block and a digest string for every
  other block, and the hashed record is a plain object. Numbers are the integers the
  ledger computes with (indices, nonces, millisecond timestamps); strings are lists of
  characters; an object is the list of its own properties in enumeration order.
\<close>

datatype jsval =
    JUndefined
  | JNull
  | JBool bool
  | JNum int
  | JStr string
  | JArr "jsval list"
  | JObj "(string \<times> jsval) list"

type_synonym js_object = "(string \<times> jsval) list"

text \<open>Property read \<open>o.k\<close>: a missing property reads as \<open>undefined\<close>.\<close>

definition js_get :: "js_object \<Rightarrow> string \<Rightarrow> jsval" where
  "js_get ob k = (case map_of ob k of None \<Rightarrow> JUndefined | Some v \<Rightarrow> v)"

text \<open>Property write \<open>o[k] = v\<close>: an existing property keeps its place, a new one goes last.\<close>

definition js_set :: "js_object \<Rightarrow> string \<Rightarrow> jsval \<Rightarrow> js_object" where
  "js_set ob k v = AList.update k v ob"

text \<open>\<open>delete o.k\<close>.\<close>

definition js_delete :: "string \<Rightarrow> js_object \<Rightarrow> js_object" where
  "js_delete k ob = AList.delete k ob"

subsection \<open>Number to string, \<open>JSON.stringify\<close>\<close>

text \<open>Integers of the size the ledger handles print in plain decimal.\<close>

fun show_nat :: "nat \<Rightarrow> string" where
  "show_nat n =
     (if n < 10 then [''0123456789'' ! n]
      else show_nat (n div 10) @ [''0123456789'' ! (n mod 10)])"

declare show_nat.simps [simp del]

definition show_int :: "int \<Rightarrow> string" where
  "show_int i = (if i < 0 then CHR ''-'' # show_nat (nat (- i)) else show_nat (nat i))"

definition hex_digit :: "nat \<Rightarrow> char" where
  "hex_digit n = ''0123456789abcdef'' ! (n mod 16)"

text \<open>
  \<open>JSON.stringify\<close> on a string: the quotation mark and the reverse solidus are escaped,
  control characters get their short escape or \<open>\u00XX\<close>.
\<close>

definition json_escape :: "char \<Rightarrow> string" where
  "json_escape c =
     (if c = CHR 0x22 then [CHR 0x5C, CHR 0x22]
      else if c = CHR 0x5C then [CHR 0x5C, CHR 0x5C]
      else if c = CHR 0x08 then [CHR 0x5C, CHR ''b'']
      else if c = CHR 0x09 then [CHR 0x5C, CHR ''t'']
      else if c = CHR 0x0A then [CHR 0x5C, CHR ''n'']
      else if c = CHR 0x0C then [CHR 0x5C, CHR ''f'']
      else if c = CHR 0x0D then [CHR 0x5C, CHR ''r'']
      else if (of_char c :: nat) < 32
        then [CHR 0x5C, CHR ''u'', CHR ''0'', CHR ''0'',
              hex_digit (of_char c div 16), hex_digit (of_char c)]
      else [c])"

definition json_quote :: "string \<Rightarrow> string" where
  "json_quote s = CHR 0x22 # concat (map json_escape s) @ [CHR 0x22]"

fun commas :: "string list \<Rightarrow> string" where
  "commas [] = []"
| "commas [x] = x"
| "commas (x # y # ys) = x @ CHR '','' # commas (y # ys)"

text \<open>
  \<open>json_text v\<close> is the text \<open>JSON.stringify(v)\<close> returns, \<open>None\<close> when it returns
  \<open>undefined\<close>. Inside an array \<open>undefined\<close> is written \<open>null\<close>; inside an object the
  property is left out.
\<close>

primrec json_text :: "jsval \<Rightarrow> string option" where
  "json_text JUndefined = None"
| "json_text JNull = Some ''null''"
| "json_text (JBool b) = Some (if b then ''true'' else ''false'')"
| "json_text (JNum n) = Some (show_int n)"
| "json_text (JStr s) = Some (json_quote s)"
| "json_text (JArr xs) =
     Some (CHR ''['' # commas (map (\<lambda>t. case t of None \<Rightarrow> ''null'' | Some u \<Rightarrow> u)
                                 (map json_text xs)) @ '']'')"
| "json_text (JObj kvs) =
     Some (CHR ''{'' # commas (concat (map (\<lambda>(k, t). case t of None \<Rightarrow> []
                                          | Some u \<Rightarrow> [json_quote k @ CHR '':'' # u])
                                 (map (map_prod id json_text) kvs))) @ ''}'')"

definition json_stringify :: "jsval \<Rightarrow> jsval" where
  "json_stringify v = (case json_text v of None \<Rightarrow> JUndefined | Some t \<Rightarrow> JStr t)"

section \<open>Block\<close>

text \<open>
  A \<open>Block\<close> object: the payload and creation time set by the constructor, the three
  linkage fields set by \<open>build\<close>, and \<open>object\<close>, the record that is hashed and that
  carries the cached digest under the key \<open>hash\<close>. Before \<open>build\<close> the linkage fields
  and \<open>object\<close> are unset; every path of the ledger calls \<open>build\<close> before it reads them.
\<close>

record block =
  data :: jsval
  timestamp :: int
  index :: int
  previousHash :: jsval
  nonce :: int
  object :: js_object

text \<open>
  \<open>new Block(data)\<close> at clock time \<open>now\<close>. The fields the constructor leaves unset are
  filled with placeholders that \<open>build\<close> overwrites.
\<close>

definition new_Block :: "jsval \<Rightarrow> int \<Rightarrow> block" where
  "new_Block d now =
     \<lparr>data = d, timestamp = now, index = 0, previousHash = JUndefined, nonce = 0, object = []\<rparr>"

text \<open>
  \<open>Block.hash\<close>: copy \<open>object\<close>, delete the key \<open>hash\<close>, hash what is left. The hasher
  \<open>oh\<close> stands for \<open>new ObjectHash().hash\<close> of the library the ledger imports.
\<close>

definition hash :: "(jsval \<Rightarrow> string) \<Rightarrow> block \<Rightarrow> string" where
  "hash oh b = (let tmpObject = object b in oh (JObj (js_delete ''hash'' tmpObject)))"

definition sealed_fields :: "int \<Rightarrow> int \<Rightarrow> jsval \<Rightarrow> jsval \<Rightarrow> int \<Rightarrow> js_object" where
  "sealed_fields i ts p d n =
     [(''index'', JNum i), (''timestamp'', JNum ts), (''previousHash'', p),
      (''data'', d), (''nonce'', JNum n)]"

definition build :: "(jsval \<Rightarrow> string) \<Rightarrow> block \<Rightarrow> int \<Rightarrow> jsval \<Rightarrow> int \<Rightarrow> block" where
  "build oh b i p n =
     (let b1 = b\<lparr>index := i, previousHash := p, nonce := n\<rparr>;
          b2 = b1\<lparr>object := sealed_fields i (timestamp b1) p (data b1) n\<rparr>
      in b2\<lparr>object := js_set (object b2) ''hash'' (JStr (hash oh b2))\<rparr>)"

definition isValid :: "(jsval \<Rightarrow> string) \<Rightarrow> block \<Rightarrow> block \<Rightarrow> bool" where
  "isValid oh this previousBlock =
     (if index previousBlock + 1 \<noteq> index this then False
      else if JStr (hash oh previousBlock) \<noteq> previousHash this then False
      else if js_get (object this) ''hash'' \<noteq> JStr (hash oh this) then False
      else True)"

section \<open>The durable store\<close>

text \<open>
  Two tables, as \<open>initialize\<close> creates them:
  \<open>chain (i INTEGER PRIMARY KEY ASC, hash VARCHAR, previousHash VARCHAR, nonce INTEGER,
  timestamp INTEGER, data VARCHAR)\<close> and \<open>anchor (i INTEGER PRIMARY KEY ASC, hash VARCHAR,
  previousHash VARCHAR)\<close>, each with a unique index on \<open>hash\<close>. A table is the list of
  its rows in insertion order.
\<close>

record chain_row =
  row_i :: int
  row_hash :: jsval
  row_previousHash :: jsval
  row_nonce :: int
  row_timestamp :: int
  row_data :: jsval

record anchor_row =
  a_i :: int
  a_hash :: jsval
  a_previousHash :: jsval

text \<open>
  What a \<open>VARCHAR\<close> column gives back for a bound value: a number is kept as its text,
  an unbound (\<open>undefined\<close>) parameter is \<open>NULL\<close>. The ledger binds only digests, the
  sentinel \<open>-1\<close>, JSON text and \<open>undefined\<close> to such columns.
\<close>

definition bind_text :: "jsval \<Rightarrow> jsval" where
  "bind_text v = (case v of JNum n \<Rightarrow> JStr (show_int n) | JUndefined \<Rightarrow> JNull | _ \<Rightarrow> v)"

text \<open>
  \<open>INSERT\<close>: refused when the primary key or the unique digest is already present. The
  digest column always holds a string here, so no row escapes the unique index.
\<close>

definition insert_chain :: "chain_row list \<Rightarrow> chain_row \<Rightarrow> chain_row list option" where
  "insert_chain rows r =
     (if row_i r \<in> row_i ` set rows \<or> row_hash r \<in> row_hash ` set rows then None
      else Some (rows @ [r]))"

definition insert_anchor :: "anchor_row list \<Rightarrow> anchor_row \<Rightarrow> anchor_row list option" where
  "insert_anchor rows r =
     (if a_i r \<in> a_i ` set rows \<or> a_hash r \<in> a_hash ` set rows then None
      else Some (rows @ [r]))"

text \<open>\<open>SELECT * FROM chain ORDER BY i DESC LIMIT 1\<close>, and the same on \<open>anchor\<close>.\<close>

definition final_chain_row :: "chain_row list \<Rightarrow> chain_row list" where
  "final_chain_row rows = take 1 (rev (sort_key row_i rows))"

definition final_anchor_row :: "anchor_row list \<Rightarrow> anchor_row list" where
  "final_anchor_row rows = take 1 (rev (sort_key a_i rows))"

text \<open>\<open>SELECT hash FROM chain WHERE i > lo AND i <= hi ORDER BY i ASC\<close>: one object per row.\<close>

definition select_hashes :: "chain_row list \<Rightarrow> int \<Rightarrow> int \<Rightarrow> jsval list" where
  "select_hashes rows lo hi =
     map (\<lambda>r. JObj [(''hash'', row_hash r)])
         (sort_key row_i (filter (\<lambda>r. lo < row_i r \<and> row_i r \<le> hi) rows))"

section \<open>Chain\<close>

datatype error = TypeError

text \<open>
  The ledger: its configuration, the head reference \<open>currentBlock\<close> (unset until
  \<open>initialize\<close> seeds it), the two tables, and the heap of \<open>Block\<close> objects. Blocks are
  shared by reference between the ledger and its caller, so they live in \<open>heap\<close> and are
  named by their address.
\<close>

record ledger =
  powHashPrefix :: "string option"
  maxRandomNonce :: int
  currentBlock :: "nat option"
  heap :: "nat \<Rightarrow> block"
  next_ref :: nat
  chain_table :: "chain_row list"
  anchor_table :: "anchor_row list"

text \<open>The row \<open>_addBlockToChain\<close> binds, and its insert.\<close>

definition block_row :: "(jsval \<Rightarrow> string) \<Rightarrow> block \<Rightarrow> chain_row" where
  "block_row oh b =
     \<lparr>row_i = index b, row_hash = bind_text (JStr (hash oh b)),
      row_previousHash = bind_text (previousHash b), row_nonce = nonce b,
      row_timestamp = timestamp b, row_data = bind_text (json_stringify (data b))\<rparr>"

definition addBlockToChain :: "(jsval \<Rightarrow> string) \<Rightarrow> block \<Rightarrow> chain_row list \<Rightarrow> chain_row list option" where
  "addBlockToChain oh b rows = insert_chain rows (block_row oh b)"

text \<open>
  \<open>initialize(seed)\<close> at clock time \<open>now\<close>. The genesis insert's outcome is not looked at.
  The call always returns \<open>true\<close>; the model returns the ledger.
\<close>

definition initialize :: "(jsval \<Rightarrow> string) \<Rightarrow> int \<Rightarrow> bool \<Rightarrow> ledger \<Rightarrow> ledger" where
  "initialize oh now seed s =
     (if seed then
        (case final_chain_row (chain_table s) of
           [] \<Rightarrow>
             (let r = next_ref s;
                  g0 = build oh (new_Block (JStr ''GENBLOCK'') now) 0 (JNum (- 1)) 0;
                  g = g0\<lparr>object := js_set (object g0) ''hash'' (JStr (hash oh g0))\<rparr>;
                  s1 = s\<lparr>heap := (heap s)(r := g), next_ref := Suc r, currentBlock := Some r\<rparr>
              in case addBlockToChain oh g (chain_table s1) of
                   None \<Rightarrow> s1
                 | Some t \<Rightarrow> s1\<lparr>chain_table := t\<rparr>)
         | row # _ \<Rightarrow>
             (let r = next_ref s;
                  b0 = build oh (new_Block (row_data row) now) (row_i row)
                         (row_previousHash row) (row_nonce row);
                  b1 = b0\<lparr>timestamp := row_timestamp row\<rparr>;
                  b2 = b1\<lparr>object := js_set (object b1) ''timestamp'' (JNum (row_timestamp row))\<rparr>;
                  b3 = b2\<lparr>object := js_set (object b2) ''hash'' (JStr (hash oh b2))\<rparr>
              in s\<lparr>heap := (heap s)(r := b3), next_ref := Suc r, currentBlock := Some r\<rparr>))
      else s)"

text \<open>
  The body of the search loop: \<open>block.nonce++\<close>, then
  \<open>block.build(block.index, block.previousHash, block.nonce)\<close>.
\<close>

definition reseal :: "(jsval \<Rightarrow> string) \<Rightarrow> block \<Rightarrow> block" where
  "reseal oh b =
     (let b' = b\<lparr>nonce := nonce b + 1\<rparr> in build oh b' (index b') (previousHash b') (nonce b'))"

text \<open>
  The \<open>while (true)\<close> loop of \<open>_proofOfWork\<close> on the block at address \<open>r\<close>. It has no
  bound, so not returning is the value \<open>None\<close>. \<open>block.object.hash.slice\<close> throws when
  the cached digest is neither a string nor an array; the slice of an array is never
  \<open>===\<close> to the prefix.
\<close>

partial_function (option) pow_loop ::
  "(jsval \<Rightarrow> string) \<Rightarrow> string \<Rightarrow> nat \<Rightarrow> (nat \<Rightarrow> block) \<Rightarrow> ((error + nat) \<times> (nat \<Rightarrow> block)) option"
where
  "pow_loop oh p r h =
     (case js_get (object (h r)) ''hash'' of
        JStr d \<Rightarrow>
          if take (length p) d = p then Some (Inr r, h)
          else pow_loop oh p r (h(r := reseal oh (h r)))
      | JArr xs \<Rightarrow> pow_loop oh p r (h(r := reseal oh (h r)))
      | _ \<Rightarrow> Some (Inl TypeError, h))"

definition proofOfWork ::
  "(jsval \<Rightarrow> string) \<Rightarrow> string option \<Rightarrow> nat \<Rightarrow> (nat \<Rightarrow> block) \<Rightarrow> ((error + nat) \<times> (nat \<Rightarrow> block)) option"
where
  "proofOfWork oh pfx r h =
     (case pfx of None \<Rightarrow> Some (Inr r, h) | Some p \<Rightarrow> pow_loop oh p r h)"

text \<open>
  \<open>add(block)\<close> for the block at address \<open>r\<close>; \<open>randomNonce\<close> is the value drawn on the
  first line, an integer in \<open>[0, maxRandomNonce)\<close>. The arguments of \<open>build\<close> are read
  from the head before \<open>build\<close> writes to the candidate. The result is the value returned
  (a digest, or \<open>false\<close>) or the exception thrown, with the ledger as the call leaves it.
\<close>

definition add ::
  "(jsval \<Rightarrow> string) \<Rightarrow> int \<Rightarrow> nat \<Rightarrow> ledger \<Rightarrow> ((error + jsval) \<times> ledger) option"
where
  "add oh randomNonce r s =
     (case currentBlock s of
        None \<Rightarrow> Some (Inl TypeError, s)
      | Some cur \<Rightarrow>
          (let h1 = (heap s)(r := build oh (heap s r) (index (heap s cur) + 1)
                                   (JStr (hash oh (heap s cur))) randomNonce)
           in case proofOfWork oh (powHashPrefix s) r h1 of
                None \<Rightarrow> None
              | Some (Inl e, h2) \<Rightarrow> Some (Inl e, s\<lparr>heap := h2\<rparr>)
              | Some (Inr blk, h2) \<Rightarrow>
                  if isValid oh (h2 blk) (h2 cur) then
                    (case addBlockToChain oh (h2 blk) (chain_table s) of
                       Some t \<Rightarrow>
                         Some (Inr (js_get (object (h2 blk)) ''hash''),
                               s\<lparr>heap := h2, chain_table := t, currentBlock := Some blk\<rparr>)
                     | None \<Rightarrow> Some (Inr (JBool False), s\<lparr>heap := h2\<rparr>))
                  else Some (Inr (JBool False), s\<lparr>heap := h2\<rparr>)))"

text \<open>
  The first lines of \<open>anchor()\<close>: the index and digest of the latest anchor, or \<open>0\<close> and
  the sentinel \<open>-1\<close> when there is none.
\<close>

definition previous_anchor :: "anchor_row list \<Rightarrow> int \<times> jsval" where
  "previous_anchor rows =
     (case final_anchor_row rows of [] \<Rightarrow> (0, JNum (- 1)) | a # _ \<Rightarrow> (a_i a, a_hash a))"

text \<open>\<open>anchor()\<close>. Reading \<open>this.currentBlock.index\<close> throws while the head is unset.\<close>

definition anchor :: "(jsval \<Rightarrow> string) \<Rightarrow> ledger \<Rightarrow> (error + bool) \<times> ledger" where
  "anchor oh s =
     (let (previousAnchor, previoushash) = previous_anchor (anchor_table s)
      in case currentBlock s of
           None \<Rightarrow> (Inl TypeError, s)
         | Some cur \<Rightarrow>
             (let hashRows = select_hashes (chain_table s) previousAnchor (index (heap s cur))
              in if length hashRows > 0 then
                   (case insert_anchor (anchor_table s)
                           \<lparr>a_i = index (heap s cur), a_hash = bind_text (JStr (oh (JArr hashRows))),
                            a_previousHash = bind_text previoushash\<rparr> of
                      None \<Rightarrow> (Inr False, s)
                    | Some t \<Rightarrow> (Inr True, s\<lparr>anchor_table := t\<rparr>))
                 else (Inr False, s)))"

text \<open>The getter \<open>length\<close>.\<close>

definition chain_length :: "ledger \<Rightarrow> error + int" where
  "chain_length s =
     (case currentBlock s of None \<Rightarrow> Inl TypeError | Some cur \<Rightarrow> Inr (index (heap s cur) + 1))"

text \<open>The exit test of the search loop: the cached digest is a string that starts with the prefix.\<close>

definition exit_test :: "string \<Rightarrow> block \<Rightarrow> bool" where
  "exit_test p b =
     (case js_get (object b) ''hash'' of JStr d \<Rightarrow> take (length p) d = p | _ \<Rightarrow> False)"

section \<open>A concrete hasher and concrete ledgers\<close>

text \<open>
  The theorems below hold for every hasher \<open>oh\<close>. To run the ledger on concrete inputs a
  small deterministic hasher stands in for it: a polynomial checksum of the JSON text,
  written as four hexadecimal digits.
\<close>

definition toy_hash :: "jsval \<Rightarrow> string" where
  "toy_hash v =
     (let t = (case json_text v of None \<Rightarrow> ''undefined'' | Some u \<Rightarrow> u);
          k0 = foldl (\<lambda>a c. (a * 31 + of_char c) mod 65536) (7::int) t;
          k = (k0 * 40503 + 977) mod 65536
      in map (\<lambda>d. hex_digit (nat ((k div d) mod 16))) [4096, 256, 16, 1])"

text \<open>\<open>new Block(data)\<close> in the caller, at clock time \<open>now\<close>: a fresh object on the heap.\<close>

definition alloc_Block :: "jsval \<Rightarrow> int \<Rightarrow> ledger \<Rightarrow> nat \<times> ledger" where
  "alloc_Block d now s =
     (next_ref s, s\<lparr>heap := (heap s)(next_ref s := new_Block d now), next_ref := Suc (next_ref s)\<rparr>)"

text \<open>
  \<open>new Chain(name, powHashPrefix)\<close> over files that already exist: the tables are what
  the files hold, the head is unset.
\<close>

definition new_Chain :: "string option \<Rightarrow> ledger \<Rightarrow> ledger" where
  "new_Chain pfx s = s\<lparr>powHashPrefix := pfx, maxRandomNonce := 876348467, currentBlock := None\<rparr>"

definition blank_heap :: "nat \<Rightarrow> block" where
  "blank_heap = (\<lambda>_. new_Block JUndefined 0)"

definition empty_ledger :: "string option \<Rightarrow> ledger" where
  "empty_ledger pfx =
     \<lparr>powHashPrefix = pfx, maxRandomNonce = 876348467, currentBlock = None,
      heap = blank_heap, next_ref = 0, chain_table = [], anchor_table = []\<rparr>"

text \<open>A ledger seeded at time 1000, and the same after the caller made a block at time 1001.\<close>

definition seeded :: "string option \<Rightarrow> ledger" where
  "seeded pfx = initialize toy_hash 1000 True (empty_ledger pfx)"

definition with_candidate :: "string option \<Rightarrow> ledger" where
  "with_candidate pfx = snd (alloc_Block (JStr ''hello'') 1001 (seeded pfx))"

text \<open>
  The same ledger when another \<open>Chain\<close> object on the same files has already appended
  block 1.
\<close>

definition raced :: ledger where
  "raced = (with_candidate None)
     \<lparr>chain_table := chain_table (with_candidate None) @
        [\<lparr>row_i = 1, row_hash = JStr ''86aa'', row_previousHash = JStr ''6d80'', row_nonce = 5,
          row_timestamp = 1001, row_data = JStr (json_quote ''hello'')\<rparr>]\<rparr>"

text \<open>
  The seeded ledger after \<open>add\<close> of the caller's block with start nonce 5, after a first
  \<open>anchor()\<close>, after the caller made a second block at time 1002, and after \<open>add\<close> of that
  block with start nonce 0.
\<close>

definition after_add :: ledger where
  "after_add = (case add toy_hash 5 1 (with_candidate None) of
                  Some (res, s') \<Rightarrow> s' | None \<Rightarrow> with_candidate None)"

definition after_anchor :: ledger where
  "after_anchor = snd (anchor toy_hash after_add)"

definition with_second :: ledger where
  "with_second = snd (alloc_Block (JStr ''world'') 1002 after_anchor)"

definition after_second :: ledger where
  "after_second = (case add toy_hash 0 2 with_second of
                     Some (res, s') \<Rightarrow> s' | None \<Rightarrow> with_second)"

text \<open>A new \<open>Chain\<close> on the files of that ledger, initialized at time 2000.\<close>

definition reloaded :: ledger where
  "reloaded = initialize toy_hash 2000 True (new_Chain None after_add)"

section \<open>Blocks: sealing and digests\<close>

lemma js_delete_sealed [simp]:
  "js_delete ''hash'' (sealed_fields i ts p d n) = sealed_fields i ts p d n"
  by (simp add: js_delete_def sealed_fields_def)

lemma js_delete_set_hash [simp]:
  "js_delete ''hash'' (js_set ob ''hash'' v) = js_delete ''hash'' ob"
  by (simp add: js_delete_def js_set_def delete_update_same)

lemma js_get_set_same [simp]: "js_get (js_set ob k v) k = v"
  by (simp add: js_get_def js_set_def update_conv')

lemma hash_set_hash [simp]:
  "hash oh (b\<lparr>object := js_set (object b) ''hash'' v\<rparr>) = hash oh b"
  by (simp add: hash_def)

lemma build_index [simp]: "index (build oh b i p n) = i"
  and build_previousHash [simp]: "previousHash (build oh b i p n) = p"
  and build_nonce [simp]: "nonce (build oh b i p n) = n"
  and build_data [simp]: "data (build oh b i p n) = data b"
  and build_timestamp [simp]: "timestamp (build oh b i p n) = timestamp b"
  by (simp_all add: build_def Let_def)

lemma hash_build:
  "hash oh (build oh b i p n) = oh (JObj (sealed_fields i (timestamp b) p (data b) n))"
  by (simp add: build_def Let_def hash_def)

lemma build_sealed [simp]:
  "js_get (object (build oh b i p n)) ''hash'' = JStr (hash oh (build oh b i p n))"
  by (simp add: build_def Let_def hash_def)

lemma object_build:
  "object (build oh b i p n) =
     sealed_fields i (timestamp b) p (data b) n @
     [(''hash'', JStr (oh (JObj (sealed_fields i (timestamp b) p (data b) n))))]"
  by (simp add: build_def Let_def hash_def js_set_def js_delete_def sealed_fields_def)

lemma reseal_fields [simp]:
  "index (reseal oh b) = index b"
  "previousHash (reseal oh b) = previousHash b"
  "nonce (reseal oh b) = nonce b + 1"
  "data (reseal oh b) = data b"
  "timestamp (reseal oh b) = timestamp b"
  by (simp_all add: reseal_def Let_def)

lemma reseal_sealed [simp]:
  "js_get (object (reseal oh b)) ''hash'' = JStr (hash oh (reseal oh b))"
  by (simp add: reseal_def Let_def)

lemma funpow_reseal_fields [simp]:
  "index ((reseal oh ^^ k) b) = index b"
  "previousHash ((reseal oh ^^ k) b) = previousHash b"
  "nonce ((reseal oh ^^ k) b) = nonce b + int k"
  "data ((reseal oh ^^ k) b) = data b"
  "timestamp ((reseal oh ^^ k) b) = timestamp b"
  by (induction k) simp_all

lemma funpow_reseal_sealed:
  "js_get (object b) ''hash'' = JStr (hash oh b) \<Longrightarrow>
   js_get (object ((reseal oh ^^ k) b)) ''hash'' = JStr (hash oh ((reseal oh ^^ k) b))"
  by (cases k) simp_all

section \<open>The proof-of-work loop\<close>

text \<open>
  Whatever the loop returns, it got there by resealing the block at \<open>r\<close> some number of
  times, each time because the exit test failed; it throws only on entry.
\<close>

lemma pow_loop_result:
  assumes "pow_loop oh p r h = Some y"
  shows "\<exists>k. snd y = h(r := (reseal oh ^^ k) (h r)) \<and> (\<forall>j<k. \<not> exit_test p ((reseal oh ^^ j) (h r)))
          \<and> (case fst y of Inr blk \<Rightarrow> blk = r \<and> exit_test p (snd y r)
              | Inl e \<Rightarrow> \<forall>d. js_get (object (h r)) ''hash'' \<noteq> JStr d)"
  using assms
proof (induction oh p r h y rule: pow_loop.raw_induct[rotated 1, consumes 1])
  case (1 f oh p r h y)
  note IH = 1(1) and body = 1(2)
  let ?h1 = "h(r := reseal oh (h r))"
  let ?Q = "\<lambda>h k. snd y = h(r := (reseal oh ^^ k) (h r)) \<and> (\<forall>j<k. \<not> exit_test p ((reseal oh ^^ j) (h r)))
          \<and> (case fst y of Inr blk \<Rightarrow> blk = r \<and> exit_test p (snd y r)
              | Inl e \<Rightarrow> \<forall>d. js_get (object (h r)) ''hash'' \<noteq> JStr d)"
  have step: "\<exists>k. ?Q h k" if rec: "f oh p r ?h1 = Some y" and nx: "\<not> exit_test p (h r)"
  proof -
    from IH[OF rec] obtain k where k: "snd y = ?h1(r := (reseal oh ^^ k) (?h1 r))"
      "\<forall>j<k. \<not> exit_test p ((reseal oh ^^ j) (?h1 r))"
      "(case fst y of Inr blk \<Rightarrow> blk = r \<and> exit_test p (snd y r)
              | Inl e \<Rightarrow> \<forall>d. js_get (object (?h1 r)) ''hash'' \<noteq> JStr d)" by blast
    have a: "snd y = h(r := (reseal oh ^^ Suc k) (h r))" using k(1) by (simp add: funpow_Suc_right del: funpow.simps)
    have b: "\<not> exit_test p ((reseal oh ^^ j) (h r))" if "j < Suc k" for j
    proof (cases j)
      case 0 then show ?thesis using nx by simp
    next
      case (Suc j')
      then have "j' < k" using that by simp
      with k(2) have "\<not> exit_test p ((reseal oh ^^ j') (reseal oh (h r)))" by simp
      then show ?thesis using Suc by (simp add: funpow_Suc_right del: funpow.simps)
    qed
    have c: "fst y = Inr r \<and> exit_test p (snd y r)"
      using k(3) by (cases "fst y") simp_all
    show ?thesis
      by (rule exI[where x = "Suc k"]) (use a b c in simp)
  qed
  have stop: "\<exists>k. ?Q h k" if "snd y = h" and "case fst y of Inr blk \<Rightarrow> blk = r \<and> exit_test p (h r)
              | Inl e \<Rightarrow> \<forall>d. js_get (object (h r)) ''hash'' \<noteq> JStr d"
  proof -
    show ?thesis
      by (rule exI[where x = 0]) (use that in \<open>cases "fst y"; simp\<close>)
  qed
  show ?case
  proof (cases "js_get (object (h r)) ''hash''")
    case (JStr d)
    show ?thesis
    proof (cases "take (length p) d = p")
      case True
      with JStr body have "y = (Inr r, h)" by simp
      then show ?thesis using JStr True by (intro stop) (simp_all add: exit_test_def)
    next
      case False
      with JStr body have "f oh p r ?h1 = Some y" by simp
      moreover have "\<not> exit_test p (h r)" using JStr False by (simp add: exit_test_def)
      ultimately show ?thesis by (rule step)
    qed
  next
    case (JArr xs)
    with body have "f oh p r ?h1 = Some y" by simp
    moreover have "\<not> exit_test p (h r)" using JArr by (simp add: exit_test_def)
    ultimately show ?thesis by (rule step)
  next
    case JUndefined
    with body have "y = (Inl TypeError, h)" by simp
    then show ?thesis using JUndefined by (intro stop) simp_all
  next
    case JNull
    with body have "y = (Inl TypeError, h)" by simp
    then show ?thesis using JNull by (intro stop) simp_all
  next
    case (JBool x)
    with body have "y = (Inl TypeError, h)" by simp
    then show ?thesis using JBool by (intro stop) simp_all
  next
    case (JNum x)
    with body have "y = (Inl TypeError, h)" by simp
    then show ?thesis using JNum by (intro stop) simp_all
  next
    case (JObj x)
    with body have "y = (Inl TypeError, h)" by simp
    then show ?thesis using JObj by (intro stop) simp_all
  qed
qed

lemma take_prefix_iff: "take (length p) d = p \<longleftrightarrow> prefix p d"
  by (metis prefix_def append_eq_conv_conj take_is_prefix)

lemma exit_test_iff: "exit_test p b \<longleftrightarrow> (\<exists>d. js_get (object b) ''hash'' = JStr d \<and> prefix p d)"
  by (cases "js_get (object b) ''hash''") (simp_all add: exit_test_def take_prefix_iff)

section \<open>Validation\<close>

text \<open>
  Claim C3. \<open>b.isValid(p)\<close> is true exactly when \<open>p.index + 1\<close> is \<open>b.index\<close>, the
  \<open>previousHash\<close> of \<open>b\<close> is the freshly recomputed digest of \<open>p\<close>, and the digest cached
  in \<open>b\<close> is the freshly recomputed digest of \<open>b\<close>; it is false as soon as one of the three
  fails. The result is a boolean for every pair of sealed blocks: no path of \<open>isValid\<close>
  raises.
\<close>

theorem isValid_three_checks:
  "isValid oh b p \<longleftrightarrow>
     (index p + 1 = index b \<and> previousHash b = JStr (hash oh p) \<and>
      js_get (object b) ''hash'' = JStr (hash oh b))"
  by (auto simp: isValid_def)

section \<open>The digest does not depend on the cached digest\<close>

lemma js_delete_idem: "js_delete k (js_delete k ob) = js_delete k ob"
  by (simp add: js_delete_def delete_idem)

text \<open>
  Claim C9. \<open>hash\<close> is a function of the hashed record without its \<open>hash\<close> key. A block
  sealed by \<open>build\<close> hashes to the digest of its five fields; a record with those five
  fields hashes to the same digest whether the key \<open>hash\<close> is present (with any value) or
  absent; and on any block, writing or deleting the key \<open>hash\<close> leaves the digest unchanged.
\<close>

theorem hash_ignores_stored_digest:
  "hash oh (build oh b i p n) = oh (JObj (sealed_fields i (timestamp b) p (data b) n)) \<and>
   hash oh (b1\<lparr>object := js_set (sealed_fields i ts p d n) ''hash'' v\<rparr>) =
     oh (JObj (sealed_fields i ts p d n)) \<and>
   hash oh (b2\<lparr>object := sealed_fields i ts p d n\<rparr>) = oh (JObj (sealed_fields i ts p d n)) \<and>
   hash oh (b3\<lparr>object := js_set (object b3) ''hash'' v\<rparr>) = hash oh b3 \<and>
   hash oh (b3\<lparr>object := js_delete ''hash'' (object b3)\<rparr>) = hash oh b3"
  by (simp add: hash_build) (simp add: hash_def js_delete_idem)

section \<open>The proof-of-work search\<close>

text \<open>
  Claim C8. Whenever \<open>_proofOfWork\<close> returns a block, it is the block it was given. With no
  prefix configured the heap is unchanged. With a prefix \<open>p\<close>, the cached digest of the
  returned block starts with \<open>p\<close>, and the block is the result of resealing the given
  block \<open>k\<close> times: the nonce grew by \<open>k\<close>, each of the \<open>k\<close> earlier attempts failed the
  exit test, and after at least one reseal the cached digest is the recomputed one.
\<close>

theorem proofOfWork_contract:
  assumes "proofOfWork oh pfx r h = Some (Inr blk, h')"
  shows "blk = r \<and>
    (case pfx of
       None \<Rightarrow> h' = h
     | Some p \<Rightarrow>
         (\<exists>d. js_get (object (h' r)) ''hash'' = JStr d \<and> prefix p d) \<and>
         (\<exists>k. h' = h(r := (reseal oh ^^ k) (h r)) \<and> nonce (h' r) = nonce (h r) + int k \<and>
              (\<forall>j<k. \<not> exit_test p ((reseal oh ^^ j) (h r))) \<and>
              (0 < k \<longrightarrow> js_get (object (h' r)) ''hash'' = JStr (hash oh (h' r)))))"
proof (cases pfx)
  case None
  with assms show ?thesis by (simp add: proofOfWork_def)
next
  case (Some p)
  with assms have run: "pow_loop oh p r h = Some (Inr blk, h')" by (simp add: proofOfWork_def)
  from pow_loop_result[OF run] obtain k where
    k: "h' = h(r := (reseal oh ^^ k) (h r))" "\<forall>j<k. \<not> exit_test p ((reseal oh ^^ j) (h r))"
       "blk = r" "exit_test p (h' r)"
    by auto
  have sealed: "js_get (object (h' r)) ''hash'' = JStr (hash oh (h' r))" if "0 < k"
    using that k(1) by (cases k) simp_all
  have "\<exists>k. h' = h(r := (reseal oh ^^ k) (h r)) \<and> nonce (h' r) = nonce (h r) + int k \<and>
              (\<forall>j<k. \<not> exit_test p ((reseal oh ^^ j) (h r))) \<and>
              (0 < k \<longrightarrow> js_get (object (h' r)) ''hash'' = JStr (hash oh (h' r)))"
    by (rule exI[where x = k]) (use k sealed in simp)
  with k(3,4) Some show ?thesis by (simp add: exit_test_iff)
qed

text \<open>The loop returns as soon as some reseal passes the exit test.\<close>

lemma pow_loop_exit: "exit_test p (h r) \<Longrightarrow> pow_loop oh p r h = Some (Inr r, h)"
  by (subst pow_loop.simps) (auto simp: exit_test_def split: jsval.splits)

lemma pow_loop_step:
  "\<not> exit_test p (h r) \<Longrightarrow> js_get (object (h r)) ''hash'' = JStr d \<Longrightarrow>
   pow_loop oh p r h = pow_loop oh p r (h(r := reseal oh (h r)))"
  by (subst pow_loop.simps) (simp add: exit_test_def)

lemma pow_loop_terminates:
  assumes "exit_test p ((reseal oh ^^ k) (h r))" and "js_get (object (h r)) ''hash'' = JStr d"
  shows "\<exists>j\<le>k. pow_loop oh p r h = Some (Inr r, h(r := (reseal oh ^^ j) (h r)))"
  using assms
proof (induction k arbitrary: h d)
  case 0
  then have "pow_loop oh p r h = Some (Inr r, h(r := (reseal oh ^^ 0) (h r)))"
    by (simp add: pow_loop_exit)
  then show ?case by blast
next
  case (Suc k)
  show ?case
  proof (cases "exit_test p (h r)")
    case True
    then have "pow_loop oh p r h = Some (Inr r, h(r := (reseal oh ^^ 0) (h r)))"
      by (simp add: pow_loop_exit)
    then show ?thesis by blast
  next
    case False
    let ?h1 = "h(r := reseal oh (h r))"
    have "exit_test p ((reseal oh ^^ k) (?h1 r))"
      using Suc.prems(1) by (simp add: funpow_Suc_right del: funpow.simps)
    moreover have "js_get (object (?h1 r)) ''hash'' = JStr (hash oh (reseal oh (h r)))" by simp
    ultimately obtain j where j: "j \<le> k" "pow_loop oh p r ?h1 = Some (Inr r, ?h1(r := (reseal oh ^^ j) (?h1 r)))"
      using Suc.IH by blast
    have "pow_loop oh p r h = Some (Inr r, h(r := (reseal oh ^^ Suc j) (h r)))"
      using j(2) pow_loop_step[where h = h and r = r and oh = oh, OF False Suc.prems(2)] by (simp add: funpow_Suc_right del: funpow.simps)
    with j(1) have "Suc j \<le> Suc k \<and> pow_loop oh p r h = Some (Inr r, h(r := (reseal oh ^^ Suc j) (h r)))"
      by simp
    then show ?thesis by blast
  qed
qed

section \<open>Concrete runs of the search\<close>

lemma reseal_build: "reseal oh (build oh b i p n) = build oh b i p (n + 1)"
  by (simp add: reseal_def build_def Let_def hash_def)

lemma funpow_reseal_build: "(reseal oh ^^ k) (build oh b i p n) = build oh b i p (n + int k)"
  by (induction k) (simp_all add: reseal_build add.commute add.left_commute)

lemma exit_test_build:
  "exit_test p (build oh b i q n) \<longleftrightarrow>
     take (length p) (oh (JObj (sealed_fields i (timestamp b) q (data b) n))) = p"
  by (simp add: exit_test_def hash_build)

lemma toy_digest_5: "toy_hash (JObj (sealed_fields 1 1001 (JStr ''6d80'') (JStr ''hello'') 5)) = ''86aa''"
  by code_simp
lemma toy_digest_6: "toy_hash (JObj (sealed_fields 1 1001 (JStr ''6d80'') (JStr ''hello'') 6)) = ''af53''"
  by code_simp
lemma toy_digest_7: "toy_hash (JObj (sealed_fields 1 1001 (JStr ''6d80'') (JStr ''hello'') 7)) = ''d7fc''"
  by code_simp
lemma toy_digest_8: "toy_hash (JObj (sealed_fields 1 1001 (JStr ''6d80'') (JStr ''hello'') 8)) = ''00a5''"
  by code_simp

lemma toy_search:
  "pow_loop toy_hash ''0'' r
     (h(r := build toy_hash (new_Block (JStr ''hello'') 1001) 1 (JStr ''6d80'') 5)) =
   Some (Inr r, h(r := build toy_hash (new_Block (JStr ''hello'') 1001) 1 (JStr ''6d80'') 8))"
proof -
  let ?c = "\<lambda>n. build toy_hash (new_Block (JStr ''hello'') 1001) 1 (JStr ''6d80'') n"
  have t: "timestamp (new_Block (JStr ''hello'') 1001) = 1001" "data (new_Block (JStr ''hello'') 1001) = JStr ''hello''"
    by (simp_all add: new_Block_def)
  have no: "\<not> exit_test ''0'' (?c 5)" "\<not> exit_test ''0'' (?c 6)" "\<not> exit_test ''0'' (?c 7)"
    and yes: "exit_test ''0'' (?c 8)"
    by (simp_all add: exit_test_build t toy_digest_5 toy_digest_6 toy_digest_7 toy_digest_8)
  have "pow_loop toy_hash ''0'' r (h(r := ?c 5)) = pow_loop toy_hash ''0'' r (h(r := ?c 6))"
    using pow_loop_step[where h = "h(r := ?c 5)" and r = r and p = "''0''" and oh = toy_hash] no(1)
    by (simp add: reseal_build)
  also have "\<dots> = pow_loop toy_hash ''0'' r (h(r := ?c 7))"
    using pow_loop_step[where h = "h(r := ?c 6)" and r = r and p = "''0''" and oh = toy_hash] no(2)
    by (simp add: reseal_build)
  also have "\<dots> = pow_loop toy_hash ''0'' r (h(r := ?c 8))"
    using pow_loop_step[where h = "h(r := ?c 7)" and r = r and p = "''0''" and oh = toy_hash] no(3)
    by (simp add: reseal_build)
  also have "\<dots> = Some (Inr r, h(r := ?c 8))"
    using pow_loop_exit[where h = "h(r := ?c 8)" and r = r and p = "''0''" and oh = toy_hash] yes
    by simp
  finally show ?thesis .
qed

theorem proofOfWork_contract_witness:
  "proofOfWork toy_hash (Some ''0'') 3
     (blank_heap(3 := build toy_hash (new_Block (JStr ''hello'') 1001) 1 (JStr ''6d80'') 5)) =
     Some (Inr 3, blank_heap(3 := build toy_hash (new_Block (JStr ''hello'') 1001) 1 (JStr ''6d80'') 8)) \<and>
   (\<exists>d. js_get (object (build toy_hash (new_Block (JStr ''hello'') 1001) 1 (JStr ''6d80'') 8)) ''hash'' = JStr d
        \<and> prefix ''0'' d) \<and>
   proofOfWork toy_hash None 3
     (blank_heap(3 := build toy_hash (new_Block (JStr ''hello'') 1001) 1 (JStr ''6d80'') 5)) =
     Some (Inr 3, blank_heap(3 := build toy_hash (new_Block (JStr ''hello'') 1001) 1 (JStr ''6d80'') 5))"
proof -
  let ?h = "blank_heap(3 := build toy_hash (new_Block (JStr ''hello'') 1001) 1 (JStr ''6d80'') 5)"
  let ?h' = "blank_heap(3 := build toy_hash (new_Block (JStr ''hello'') 1001) 1 (JStr ''6d80'') 8)"
  have run: "proofOfWork toy_hash (Some ''0'') 3 ?h = Some (Inr 3, ?h')"
    by (simp add: proofOfWork_def toy_search)
  have run0: "proofOfWork toy_hash None 3 ?h = Some (Inr 3, ?h)"
    by (simp add: proofOfWork_def)
  from proofOfWork_contract[OF run] proofOfWork_contract[OF run0] run run0
  show ?thesis by simp
qed

section \<open>Adding a block\<close>

lemma bind_text_JStr [simp]: "bind_text (JStr x) = JStr x"
  by (simp add: bind_text_def)

text \<open>
  On a block that \<open>build\<close> has just sealed the search never throws, and what it returns is
  the same block built with a later nonce.
\<close>

lemma proofOfWork_after_build:
  assumes "proofOfWork oh pfx r (h(r := build oh b i q n)) = Some (res, h2)"
  shows "\<exists>k. res = Inr r \<and> h2 = h(r := build oh b i q (n + int k)) \<and>
             (case pfx of None \<Rightarrow> k = 0
              | Some p \<Rightarrow> exit_test p (build oh b i q (n + int k)) \<and>
                          (\<forall>j<k. \<not> exit_test p (build oh b i q (n + int j))))"
proof (cases pfx)
  case None
  with assms have "res = Inr r \<and> h2 = h(r := build oh b i q (n + int 0))"
    by (simp add: proofOfWork_def)
  with None show ?thesis by (intro exI[where x = 0]) simp
next
  case (Some p)
  let ?h = "h(r := build oh b i q n)"
  from assms Some have run: "pow_loop oh p r ?h = Some (res, h2)" by (simp add: proofOfWork_def)
  from pow_loop_result[OF run] obtain k where
    k0: "snd (res, h2) = ?h(r := (reseal oh ^^ k) (?h r))"
       "\<forall>j<k. \<not> exit_test p ((reseal oh ^^ j) (?h r))"
       "case fst (res, h2) of Inr blk \<Rightarrow> blk = r \<and> exit_test p (snd (res, h2) r)
          | Inl e \<Rightarrow> \<forall>d. js_get (object (?h r)) ''hash'' \<noteq> JStr d"
    by blast
  have k: "h2 = ?h(r := (reseal oh ^^ k) (?h r))" "\<forall>j<k. \<not> exit_test p ((reseal oh ^^ j) (?h r))"
    using k0 by simp_all
  have res: "res = Inr r \<and> exit_test p (h2 r)" using k0(3) by (cases res) simp_all
  have h2: "h2 = h(r := build oh b i q (n + int k))" using k(1) by (simp add: funpow_reseal_build)
  have "\<forall>j<k. \<not> exit_test p (build oh b i q (n + int j))"
    using k(2) by (simp add: funpow_reseal_build)
  with res h2 Some show ?thesis by (intro exI[where x = k]) simp
qed

lemma not_isValid_self: "\<not> isValid oh b b"
  by (simp add: isValid_def)

text \<open>
  What a returning \<open>add\<close> leaves behind: the candidate built on the head with the start
  nonce plus the number of reseals, validation failing exactly when the candidate is the
  head object itself, and the head and the table changed only on success.
\<close>

lemma add_result:
  assumes cur: "currentBlock s = Some cur" and run: "add oh rn r s = Some (res, s')"
  obtains k where
    "heap s' = (heap s)(r := build oh (heap s r) (index (heap s cur) + 1)
                               (JStr (hash oh (heap s cur))) (rn + int k))"
    "powHashPrefix s = None \<Longrightarrow> k = 0"
    "\<And>p. powHashPrefix s = Some p \<Longrightarrow>
       exit_test p (heap s' r) \<and>
       (\<forall>j<k. \<not> exit_test p (build oh (heap s r) (index (heap s cur) + 1)
                                  (JStr (hash oh (heap s cur))) (rn + int j)))"
    "isValid oh (heap s' r) (heap s' cur) \<longleftrightarrow> r \<noteq> cur"
    "r \<noteq> cur \<and> insert_chain (chain_table s) (block_row oh (heap s' r)) \<noteq> None \<Longrightarrow>
       res = Inr (JStr (hash oh (heap s' r))) \<and> currentBlock s' = Some r \<and>
       chain_table s' = chain_table s @ [block_row oh (heap s' r)]"
    "r = cur \<or> insert_chain (chain_table s) (block_row oh (heap s' r)) = None \<Longrightarrow>
       res = Inr (JBool False) \<and> currentBlock s' = Some cur \<and> chain_table s' = chain_table s"
    "anchor_table s' = anchor_table s \<and> powHashPrefix s' = powHashPrefix s \<and>
     maxRandomNonce s' = maxRandomNonce s \<and> next_ref s' = next_ref s"
proof -
  let ?c = "\<lambda>n. build oh (heap s r) (index (heap s cur) + 1) (JStr (hash oh (heap s cur))) n"
  let ?h1 = "(heap s)(r := ?c rn)"
  from run cur obtain y where pw: "proofOfWork oh (powHashPrefix s) r ?h1 = Some y"
    by (cases "proofOfWork oh (powHashPrefix s) r ?h1") (simp_all add: add_def Let_def)
  obtain pres h2 where y: "y = (pres, h2)" by (cases y)
  from proofOfWork_after_build[OF pw[unfolded y]] obtain k where
    k: "pres = Inr r" "h2 = (heap s)(r := ?c (rn + int k))"
       "case powHashPrefix s of None \<Rightarrow> k = 0
        | Some p \<Rightarrow> exit_test p (?c (rn + int k)) \<and> (\<forall>j<k. \<not> exit_test p (?c (rn + int j)))"
    by blast
  have valid: "isValid oh (h2 r) (h2 cur) \<longleftrightarrow> r \<noteq> cur"
    using k(2) by (auto simp: isValid_def)
  have s': "s' = (if r \<noteq> cur then
                   (case insert_chain (chain_table s) (block_row oh (h2 r)) of
                      Some t \<Rightarrow> s\<lparr>heap := h2, chain_table := t, currentBlock := Some r\<rparr>
                    | None \<Rightarrow> s\<lparr>heap := h2\<rparr>)
                 else s\<lparr>heap := h2\<rparr>)"
    and res: "res = (if r \<noteq> cur then
                   (case insert_chain (chain_table s) (block_row oh (h2 r)) of
                      Some t \<Rightarrow> Inr (js_get (object (h2 r)) ''hash'')
                    | None \<Rightarrow> Inr (JBool False))
                 else Inr (JBool False))"
    using run cur pw y k(1) valid
    by (auto simp: add_def Let_def addBlockToChain_def split: option.splits)
  have heap: "heap s' = h2" using s' by (simp split: option.splits)
  have sealed: "js_get (object (h2 r)) ''hash'' = JStr (hash oh (h2 r))" using k(2) by simp
  show thesis
  proof (rule that[of k])
    show "heap s' = (heap s)(r := ?c (rn + int k))" using heap k(2) by simp
    show "powHashPrefix s = None \<Longrightarrow> k = 0" using k(3) by simp
    show "exit_test p (heap s' r) \<and> (\<forall>j<k. \<not> exit_test p (?c (rn + int j)))"
      if "powHashPrefix s = Some p" for p using that k(3) heap k(2) by simp
    show "isValid oh (heap s' r) (heap s' cur) \<longleftrightarrow> r \<noteq> cur" using valid heap by simp
    show "res = Inr (JStr (hash oh (heap s' r))) \<and> currentBlock s' = Some r \<and>
          chain_table s' = chain_table s @ [block_row oh (heap s' r)]"
      if "r \<noteq> cur \<and> insert_chain (chain_table s) (block_row oh (heap s' r)) \<noteq> None"
      using that res s' heap sealed by (auto simp: insert_chain_def split: if_splits)
    show "res = Inr (JBool False) \<and> currentBlock s' = Some cur \<and> chain_table s' = chain_table s"
      if "r = cur \<or> insert_chain (chain_table s) (block_row oh (heap s' r)) = None"
      using that res s' heap cur by auto
    show "anchor_table s' = anchor_table s \<and> powHashPrefix s' = powHashPrefix s \<and>
          maxRandomNonce s' = maxRandomNonce s \<and> next_ref s' = next_ref s"
      using s' by (simp split: option.splits)
  qed
qed

text \<open>\<open>add\<close> returns exactly when some nonce from the start nonce on passes the exit test.\<close>

lemma add_returns_iff:
  assumes cur: "currentBlock s = Some cur"
  shows "add oh rn r s \<noteq> None \<longleftrightarrow>
     (case powHashPrefix s of None \<Rightarrow> True
      | Some p \<Rightarrow> \<exists>k. exit_test p (build oh (heap s r) (index (heap s cur) + 1)
                                    (JStr (hash oh (heap s cur))) (rn + int k)))"
proof (cases "powHashPrefix s")
  case None
  then show ?thesis using cur
    by (simp add: add_def Let_def proofOfWork_def split: option.splits)
next
  case (Some p)
  let ?c = "\<lambda>n. build oh (heap s r) (index (heap s cur) + 1) (JStr (hash oh (heap s cur))) n"
  let ?h1 = "(heap s)(r := ?c rn)"
  show ?thesis
  proof
    assume "add oh rn r s \<noteq> None"
    then obtain res s' where run: "add oh rn r s = Some (res, s')" by (cases "add oh rn r s") auto
    from add_result[OF cur run] obtain k where
      "heap s' = (heap s)(r := ?c (rn + int k))" "exit_test p (heap s' r)"
      using Some by metis
    then have "exit_test p (?c (rn + int k))" by simp
    with Some show "case powHashPrefix s of None \<Rightarrow> True | Some p \<Rightarrow> \<exists>k. exit_test p (?c (rn + int k))"
      by auto
  next
    assume "case powHashPrefix s of None \<Rightarrow> True | Some p \<Rightarrow> \<exists>k. exit_test p (?c (rn + int k))"
    with Some obtain k where "exit_test p (?c (rn + int k))" by auto
    then have "exit_test p ((reseal oh ^^ k) (?h1 r))" by (simp add: funpow_reseal_build)
    moreover have "js_get (object (?h1 r)) ''hash'' = JStr (hash oh (?c rn))" by simp
    ultimately obtain j where "pow_loop oh p r ?h1 = Some (Inr r, ?h1(r := (reseal oh ^^ j) (?h1 r)))"
      using pow_loop_terminates[where h = ?h1 and r = r and p = p and oh = oh and k = k] by blast
    then show "add oh rn r s \<noteq> None"
      using cur Some by (simp add: add_def Let_def proofOfWork_def split: option.splits)
  qed
qed

text \<open>
  Claim C4. On an initialized ledger, with no prefix configured \<open>add\<close> always returns. Whenever
  \<open>add\<close> returns: if the candidate passes \<open>isValid\<close> against the head and the insert is
  accepted, the value returned is the candidate's digest, the head is the candidate and the
  table has the candidate's row appended; if validation fails or the insert is refused (the
  index or the digest is already in the table), the value returned is \<open>false\<close> and the head
  reference and the table are unchanged.
\<close>

theorem add_outcome:
  assumes "currentBlock s = Some cur"
  shows "(powHashPrefix s = None \<longrightarrow> add oh rn r s \<noteq> None) \<and>
    (\<forall>res s'. add oh rn r s = Some (res, s') \<longrightarrow>
      (if isValid oh (heap s' r) (heap s' cur) \<and>
          insert_chain (chain_table s) (block_row oh (heap s' r)) \<noteq> None
       then res = Inr (js_get (object (heap s' r)) ''hash'') \<and>
            js_get (object (heap s' r)) ''hash'' = JStr (hash oh (heap s' r)) \<and>
            currentBlock s' = Some r \<and>
            chain_table s' = chain_table s @ [block_row oh (heap s' r)]
       else res = Inr (JBool False) \<and> currentBlock s' = Some cur \<and>
            chain_table s' = chain_table s))"
proof (intro conjI allI impI)
  assume "powHashPrefix s = None"
  then show "add oh rn r s \<noteq> None" using add_returns_iff[OF assms, of oh rn r] by simp
next
  fix res s' assume run: "add oh rn r s = Some (res, s')"
  from add_result[OF assms run] obtain k where
    v: "isValid oh (heap s' r) (heap s' cur) \<longleftrightarrow> r \<noteq> cur"
    and ok: "r \<noteq> cur \<and> insert_chain (chain_table s) (block_row oh (heap s' r)) \<noteq> None \<Longrightarrow>
       res = Inr (JStr (hash oh (heap s' r))) \<and> currentBlock s' = Some r \<and>
       chain_table s' = chain_table s @ [block_row oh (heap s' r)]"
    and bad: "r = cur \<or> insert_chain (chain_table s) (block_row oh (heap s' r)) = None \<Longrightarrow>
       res = Inr (JBool False) \<and> currentBlock s' = Some cur \<and> chain_table s' = chain_table s"
    and hp: "heap s' = (heap s)(r := build oh (heap s r) (index (heap s cur) + 1)
                               (JStr (hash oh (heap s cur))) (rn + int k))"
    by metis
  have sealed: "js_get (object (heap s' r)) ''hash'' = JStr (hash oh (heap s' r))"
    by (subst (1 2) hp) simp
  show "if isValid oh (heap s' r) (heap s' cur) \<and>
          insert_chain (chain_table s) (block_row oh (heap s' r)) \<noteq> None
       then res = Inr (js_get (object (heap s' r)) ''hash'') \<and>
            js_get (object (heap s' r)) ''hash'' = JStr (hash oh (heap s' r)) \<and>
            currentBlock s' = Some r \<and>
            chain_table s' = chain_table s @ [block_row oh (heap s' r)]
       else res = Inr (JBool False) \<and> currentBlock s' = Some cur \<and>
            chain_table s' = chain_table s"
    using v ok bad sealed by (cases "r \<noteq> cur \<and> insert_chain (chain_table s) (block_row oh (heap s' r)) \<noteq> None") auto
qed

text \<open>
  Claim C5. When \<open>add\<close> returns a digest, the new head is the candidate, and the value
  returned, the digest cached in the head, the digest recomputed from the head's record
  and the digest stored in the row just appended are all the same string.
\<close>

theorem add_digest_agrees:
  assumes "currentBlock s = Some cur" and "add oh rn r s = Some (Inr v, s')" and "v \<noteq> JBool False"
  shows "currentBlock s' = Some r \<and>
         v = JStr (hash oh (heap s' r)) \<and>
         js_get (object (heap s' r)) ''hash'' = v \<and>
         chain_table s' = chain_table s @ [block_row oh (heap s' r)] \<and>
         row_hash (last (chain_table s')) = v \<and>
         row_i (last (chain_table s')) = index (heap s' r)"
proof -
  from add_result[OF assms(1,2)] obtain k where
    ok: "r \<noteq> cur \<and> insert_chain (chain_table s) (block_row oh (heap s' r)) \<noteq> None \<Longrightarrow>
       Inr v = (Inr (JStr (hash oh (heap s' r))) :: error + jsval) \<and> currentBlock s' = Some r \<and>
       chain_table s' = chain_table s @ [block_row oh (heap s' r)]"
    and bad: "r = cur \<or> insert_chain (chain_table s) (block_row oh (heap s' r)) = None \<Longrightarrow>
       Inr v = (Inr (JBool False) :: error + jsval) \<and> currentBlock s' = Some cur \<and> chain_table s' = chain_table s"
    and hp: "heap s' = (heap s)(r := build oh (heap s r) (index (heap s cur) + 1)
                               (JStr (hash oh (heap s cur))) (rn + int k))"
    by metis
  have sealed: "js_get (object (heap s' r)) ''hash'' = JStr (hash oh (heap s' r))"
    by (subst (1 2) hp) simp
  from bad assms(3) have "r \<noteq> cur \<and> insert_chain (chain_table s) (block_row oh (heap s' r)) \<noteq> None"
    by auto
  from ok[OF this] sealed show ?thesis by (simp add: block_row_def)
qed

text \<open>
  Claim C10. When \<open>add\<close> returns \<open>false\<close>, the head reference and both tables are
  unchanged, but the candidate object has been rewritten in place: its index is the head's
  index plus one, its \<open>previousHash\<close> the head's digest, its nonce the start nonce plus the
  number of reseals, and its record and cached digest are those of that sealing. Payload
  and timestamp are kept, and no other object is touched.
\<close>

theorem failed_add_rewrites_candidate:
  assumes "currentBlock s = Some cur" and "add oh rn r s = Some (Inr (JBool False), s')"
  shows "currentBlock s' = Some cur \<and> chain_table s' = chain_table s \<and>
         anchor_table s' = anchor_table s \<and>
         (r = cur \<or> insert_chain (chain_table s) (block_row oh (heap s' r)) = None) \<and>
         index (heap s' r) = index (heap s cur) + 1 \<and>
         previousHash (heap s' r) = JStr (hash oh (heap s cur)) \<and>
         (\<exists>k. nonce (heap s' r) = rn + int k \<and> (powHashPrefix s = None \<longrightarrow> k = 0)) \<and>
         object (heap s' r) =
           sealed_fields (index (heap s cur) + 1) (timestamp (heap s r)) (JStr (hash oh (heap s cur)))
             (data (heap s r)) (nonce (heap s' r)) @
           [(''hash'', JStr (hash oh (heap s' r)))] \<and>
         data (heap s' r) = data (heap s r) \<and> timestamp (heap s' r) = timestamp (heap s r) \<and>
         (\<forall>a. a \<noteq> r \<longrightarrow> heap s' a = heap s a)"
proof -
  from add_result[OF assms] obtain k where
    ok: "r \<noteq> cur \<and> insert_chain (chain_table s) (block_row oh (heap s' r)) \<noteq> None \<Longrightarrow>
       Inr (JBool False) = (Inr (JStr (hash oh (heap s' r))) :: error + jsval) \<and> currentBlock s' = Some r \<and>
       chain_table s' = chain_table s @ [block_row oh (heap s' r)]"
    and bad: "r = cur \<or> insert_chain (chain_table s) (block_row oh (heap s' r)) = None \<Longrightarrow>
       currentBlock s' = Some cur \<and> chain_table s' = chain_table s"
    and frame: "anchor_table s' = anchor_table s"
    and k0: "powHashPrefix s = None \<Longrightarrow> k = 0"
    and hp: "heap s' = (heap s)(r := build oh (heap s r) (index (heap s cur) + 1)
                               (JStr (hash oh (heap s cur))) (rn + int k))"
    by metis
  from ok have fail: "r = cur \<or> insert_chain (chain_table s) (block_row oh (heap s' r)) = None"
    by auto
  have cell: "heap s' r = build oh (heap s r) (index (heap s cur) + 1)
                               (JStr (hash oh (heap s cur))) (rn + int k)"
    and others: "\<forall>a. a \<noteq> r \<longrightarrow> heap s' a = heap s a"
    by (subst hp, simp)+
  have "\<exists>k. nonce (heap s' r) = rn + int k \<and> (powHashPrefix s = None \<longrightarrow> k = 0)"
    by (rule exI[where x = k]) (use cell k0 in simp)
  moreover have "object (heap s' r) =
           sealed_fields (index (heap s cur) + 1) (timestamp (heap s r)) (JStr (hash oh (heap s cur)))
             (data (heap s r)) (nonce (heap s' r)) @
           [(''hash'', JStr (hash oh (heap s' r)))]"
    by (simp add: cell object_build hash_build)
  ultimately show ?thesis using bad[OF fail] fail frame others by (simp add: cell)
qed

section \<open>Initialization\<close>

lemma final_chain_row_Nil [simp]: "final_chain_row [] = []"
  by (simp add: final_chain_row_def)

lemma build_set_hash_again:
  "(build oh b i p n)\<lparr>object := js_set (object (build oh b i p n)) ''hash''
                                   (JStr (hash oh (build oh b i p n)))\<rparr> = build oh b i p n"
  by (simp add: object_build hash_build js_set_def sealed_fields_def)

lemma initialize_genesis:
  assumes "chain_table s = []"
  shows "initialize oh now True s =
     s\<lparr>heap := (heap s)(next_ref s := build oh (new_Block (JStr ''GENBLOCK'') now) 0 (JNum (- 1)) 0),
       next_ref := Suc (next_ref s), currentBlock := Some (next_ref s),
       chain_table := [block_row oh (build oh (new_Block (JStr ''GENBLOCK'') now) 0 (JNum (- 1)) 0)]\<rparr>"
  using assms
  by (simp add: initialize_def Let_def build_set_hash_again addBlockToChain_def insert_chain_def)

lemma initialize_reload:
  assumes "final_chain_row (chain_table s) = row # rest"
  shows "initialize oh now True s =
     s\<lparr>heap := (heap s)(next_ref s :=
           \<lparr>data = row_data row, timestamp = row_timestamp row, index = row_i row,
            previousHash = row_previousHash row, nonce = row_nonce row,
            object = sealed_fields (row_i row) (row_timestamp row) (row_previousHash row)
                       (row_data row) (row_nonce row) @
                     [(''hash'', JStr (oh (JObj (sealed_fields (row_i row) (row_timestamp row)
                                  (row_previousHash row) (row_data row) (row_nonce row)))))]\<rparr>),
       next_ref := Suc (next_ref s), currentBlock := Some (next_ref s)\<rparr>"
  using assms
  by (simp add: initialize_def Let_def build_def new_Block_def hash_def js_set_def js_delete_def
      sealed_fields_def)

section \<open>Concrete ledgers\<close>

lemma new_Block_sel [simp]: "data (new_Block d t) = d" "timestamp (new_Block d t) = t"
  by (simp_all add: new_Block_def)

lemma toy_digest_genesis:
  "toy_hash (JObj (sealed_fields 0 1000 (JNum (- 1)) (JStr ''GENBLOCK'') 0)) = ''6d80''"
  by code_simp

lemma toy_sentinel_text: "bind_text (JNum (- 1)) = JStr ''-1''"
  by code_simp

lemma seeded_facts:
  "currentBlock (seeded pfx) = Some 0"
  "next_ref (seeded pfx) = 1"
  "powHashPrefix (seeded pfx) = pfx"
  "heap (seeded pfx) = blank_heap(0 := build toy_hash (new_Block (JStr ''GENBLOCK'') 1000) 0 (JNum (- 1)) 0)"
  "chain_table (seeded pfx) =
     [\<lparr>row_i = 0, row_hash = JStr ''6d80'', row_previousHash = JStr ''-1'', row_nonce = 0,
       row_timestamp = 1000, row_data = JStr (json_quote ''GENBLOCK'')\<rparr>]"
  "anchor_table (seeded pfx) = []"
  by (simp_all add: seeded_def empty_ledger_def initialize_genesis block_row_def hash_build
      toy_digest_genesis toy_sentinel_text json_stringify_def)

lemma with_candidate_facts:
  "currentBlock (with_candidate pfx) = Some 0"
  "next_ref (with_candidate pfx) = 2"
  "powHashPrefix (with_candidate pfx) = pfx"
  "heap (with_candidate pfx) =
     blank_heap(0 := build toy_hash (new_Block (JStr ''GENBLOCK'') 1000) 0 (JNum (- 1)) 0,
                1 := new_Block (JStr ''hello'') 1001)"
  "chain_table (with_candidate pfx) =
     [\<lparr>row_i = 0, row_hash = JStr ''6d80'', row_previousHash = JStr ''-1'', row_nonce = 0,
       row_timestamp = 1000, row_data = JStr (json_quote ''GENBLOCK'')\<rparr>]"
  "anchor_table (with_candidate pfx) = []"
  by (simp_all add: with_candidate_def alloc_Block_def seeded_facts)

lemma toy_add:
  "\<exists>s'. add toy_hash 5 1 (with_candidate None) = Some (Inr (JStr ''86aa''), s') \<and>
        heap s' = (heap (with_candidate None))
                    (1 := build toy_hash (new_Block (JStr ''hello'') 1001) 1 (JStr ''6d80'') 5) \<and>
        currentBlock s' = Some 1 \<and>
        chain_table s' = chain_table (with_candidate None) @
          [\<lparr>row_i = 1, row_hash = JStr ''86aa'', row_previousHash = JStr ''6d80'', row_nonce = 5,
            row_timestamp = 1001, row_data = JStr (json_quote ''hello'')\<rparr>] \<and>
        anchor_table s' = [] \<and> next_ref s' = 2 \<and> powHashPrefix s' = None"
  by (simp add: add_def Let_def with_candidate_facts proofOfWork_def isValid_def hash_build
      toy_digest_genesis toy_digest_5 addBlockToChain_def insert_chain_def block_row_def
      json_stringify_def)

lemma toy_add_pow:
  "\<exists>s'. add toy_hash 5 1 (with_candidate (Some ''0'')) = Some (Inr (JStr ''00a5''), s') \<and>
        heap s' = (heap (with_candidate (Some ''0'')))
                    (1 := build toy_hash (new_Block (JStr ''hello'') 1001) 1 (JStr ''6d80'') 8) \<and>
        currentBlock s' = Some 1 \<and>
        chain_table s' = chain_table (with_candidate (Some ''0'')) @
          [\<lparr>row_i = 1, row_hash = JStr ''00a5'', row_previousHash = JStr ''6d80'', row_nonce = 8,
            row_timestamp = 1001, row_data = JStr (json_quote ''hello'')\<rparr>] \<and>
        anchor_table s' = [] \<and> next_ref s' = 2 \<and> powHashPrefix s' = Some ''0''"
  by (simp add: add_def Let_def with_candidate_facts proofOfWork_def toy_search isValid_def hash_build
      toy_digest_genesis toy_digest_8 addBlockToChain_def insert_chain_def block_row_def
      json_stringify_def)

lemma build_build: "build oh (build oh b i p n) i' p' n' = build oh b i' p' n'"
  by (simp add: build_def Let_def hash_def)

lemma toy_add_alias:
  "\<exists>s'. add toy_hash 5 0 (with_candidate None) = Some (Inr (JBool False), s') \<and>
        heap s' = (heap (with_candidate None))
                    (0 := build toy_hash (new_Block (JStr ''GENBLOCK'') 1000) 1 (JStr ''6d80'') 5) \<and>
        currentBlock s' = Some 0 \<and>
        chain_table s' = chain_table (with_candidate None)"
  by (simp add: add_def Let_def with_candidate_facts proofOfWork_def isValid_def hash_build
      toy_digest_genesis build_build)

lemma toy_add_raced:
  "\<exists>s'. add toy_hash 6 1 raced = Some (Inr (JBool False), s') \<and>
        heap s' = (heap raced)
                    (1 := build toy_hash (new_Block (JStr ''hello'') 1001) 1 (JStr ''6d80'') 6) \<and>
        currentBlock s' = Some 0 \<and> chain_table s' = chain_table raced"
  by (simp add: raced_def add_def Let_def with_candidate_facts proofOfWork_def isValid_def hash_build
      toy_digest_genesis toy_digest_6 addBlockToChain_def insert_chain_def block_row_def
      json_stringify_def)

theorem add_outcome_witness:
  "(\<exists>s'. add toy_hash 5 1 (with_candidate None) = Some (Inr (JStr ''86aa''), s') \<and>
         currentBlock s' = Some 1 \<and>
         map row_hash (chain_table s') = [JStr ''6d80'', JStr ''86aa'']) \<and>
   (\<exists>s'. add toy_hash 5 0 (with_candidate None) = Some (Inr (JBool False), s') \<and>
         currentBlock s' = Some 0 \<and> chain_table s' = chain_table (with_candidate None)) \<and>
   (\<exists>s'. add toy_hash 6 1 raced = Some (Inr (JBool False), s') \<and>
         currentBlock s' = Some 0 \<and> chain_table s' = chain_table raced)"
proof -
  have cur: "currentBlock (with_candidate None) = Some 0" "currentBlock raced = Some 0"
    by (simp_all add: raced_def with_candidate_facts)
  from toy_add obtain s1 where
    s1: "add toy_hash 5 1 (with_candidate None) = Some (Inr (JStr ''86aa''), s1)"
        "heap s1 = (heap (with_candidate None))
                    (1 := build toy_hash (new_Block (JStr ''hello'') 1001) 1 (JStr ''6d80'') 5)"
    by blast
  from toy_add_alias obtain s2 where
    s2: "add toy_hash 5 0 (with_candidate None) = Some (Inr (JBool False), s2)"
        "heap s2 = (heap (with_candidate None))
                    (0 := build toy_hash (new_Block (JStr ''GENBLOCK'') 1000) 1 (JStr ''6d80'') 5)"
    by blast
  from toy_add_raced obtain s3 where
    s3: "add toy_hash 6 1 raced = Some (Inr (JBool False), s3)"
        "heap s3 = (heap raced)
                    (1 := build toy_hash (new_Block (JStr ''hello'') 1001) 1 (JStr ''6d80'') 6)"
    by blast
  note T1 = add_outcome[OF cur(1), of toy_hash 5 1, THEN conjunct2, rule_format, OF s1(1)]
  note T2 = add_outcome[OF cur(1), of toy_hash 5 0, THEN conjunct2, rule_format, OF s2(1)]
  note T3 = add_outcome[OF cur(2), of toy_hash 6 1, THEN conjunct2, rule_format, OF s3(1)]
  have "currentBlock s1 = Some 1 \<and> map row_hash (chain_table s1) = [JStr ''6d80'', JStr ''86aa'']"
    using T1 s1(2)
    by (simp add: with_candidate_facts isValid_def hash_build toy_digest_genesis toy_digest_5
        insert_chain_def block_row_def)
  moreover have "currentBlock s2 = Some 0 \<and> chain_table s2 = chain_table (with_candidate None)"
    using T2 s2(2) by (simp add: with_candidate_facts isValid_def)
  moreover have "currentBlock s3 = Some 0 \<and> chain_table s3 = chain_table raced"
    using T3 s3(2)
    by (simp add: raced_def with_candidate_facts isValid_def hash_build toy_digest_genesis
        toy_digest_6 insert_chain_def block_row_def)
  ultimately show ?thesis using s1(1) s2(1) s3(1)
    by (intro conjI exI[where x = s1] exI[where x = s2] exI[where x = s3]) simp_all
qed

theorem add_digest_agrees_witness:
  "\<exists>s'. add toy_hash 5 1 (with_candidate (Some ''0'')) = Some (Inr (JStr ''00a5''), s') \<and>
        JStr ''00a5'' \<noteq> JBool False \<and>
        currentBlock s' = Some 1 \<and> hash toy_hash (heap s' 1) = ''00a5'' \<and>
        js_get (object (heap s' 1)) ''hash'' = JStr ''00a5'' \<and>
        row_hash (last (chain_table s')) = JStr ''00a5''"
proof -
  have cur: "currentBlock (with_candidate (Some ''0'')) = Some 0"
    by (simp add: with_candidate_facts)
  from toy_add_pow obtain s1 where
    s1: "add toy_hash 5 1 (with_candidate (Some ''0'')) = Some (Inr (JStr ''00a5''), s1)"
    by blast
  have ne: "JStr ''00a5'' \<noteq> JBool False" by simp
  note T = add_digest_agrees[OF cur s1 ne]
  have a: "currentBlock s1 = Some 1" using T by simp
  have b: "hash toy_hash (heap s1 1) = ''00a5''" using T by simp
  have c: "js_get (object (heap s1 1)) ''hash'' = JStr ''00a5''" using T by simp
  have d: "row_hash (last (chain_table s1)) = JStr ''00a5''" using T by (simp add: block_row_def)
  show ?thesis using s1 ne a b c d by (intro exI[where x = s1]) simp
qed

theorem failed_add_rewrites_candidate_witness:
  "\<exists>s'. add toy_hash 6 1 raced = Some (Inr (JBool False), s') \<and>
        currentBlock raced = Some 0 \<and> currentBlock s' = Some 0 \<and>
        chain_table s' = chain_table raced \<and>
        heap raced 1 = new_Block (JStr ''hello'') 1001 \<and>
        previousHash (heap raced 1) = JUndefined \<and>
        index (heap s' 1) = 1 \<and> previousHash (heap s' 1) = JStr ''6d80'' \<and>
        nonce (heap s' 1) = 6 \<and> js_get (object (heap s' 1)) ''hash'' = JStr ''af53'' \<and>
        data (heap s' 1) = JStr ''hello'' \<and> timestamp (heap s' 1) = 1001"
proof -
  have cur: "currentBlock raced = Some 0" by (simp add: raced_def with_candidate_facts)
  have before: "heap raced 1 = new_Block (JStr ''hello'') 1001"
    "heap raced 0 = build toy_hash (new_Block (JStr ''GENBLOCK'') 1000) 0 (JNum (- 1)) 0"
    by (simp_all add: raced_def with_candidate_facts)
  from toy_add_raced obtain s1 where
    s1: "add toy_hash 6 1 raced = Some (Inr (JBool False), s1)"
    and h1: "heap s1 1 = build toy_hash (new_Block (JStr ''hello'') 1001) 1 (JStr ''6d80'') 6"
    by (elim exE conjE) simp
  note T = failed_add_rewrites_candidate[OF cur s1]
  have "(currentBlock s1 = Some 0 \<and> chain_table s1 = chain_table raced) \<and>
        index (heap s1 1) = index (heap raced 0) + 1 \<and>
        previousHash (heap s1 1) = JStr (hash toy_hash (heap raced 0))"
    using T by (elim conjE) (intro conjI; assumption)
  then have frame: "currentBlock s1 = Some 0 \<and> chain_table s1 = chain_table raced"
    and idx: "index (heap s1 1) = index (heap raced 0) + 1"
    and prev: "previousHash (heap s1 1) = JStr (hash toy_hash (heap raced 0))"
    by simp_all
  have "index (heap s1 1) = 1" "previousHash (heap s1 1) = JStr ''6d80''"
    using idx prev before by (simp_all add: hash_build toy_digest_genesis)
  moreover have "nonce (heap s1 1) = 6" "js_get (object (heap s1 1)) ''hash'' = JStr ''af53''"
    "data (heap s1 1) = JStr ''hello''" "timestamp (heap s1 1) = 1001"
    using h1 by (simp_all add: hash_build toy_digest_6)
  moreover have "heap raced 1 = new_Block (JStr ''hello'') 1001"
    "previousHash (heap raced 1) = JUndefined"
    using before by (simp_all add: new_Block_def)
  ultimately show ?thesis using s1 cur frame by (intro exI[where x = s1]) simp
qed

section \<open>Proof of work on committed blocks\<close>

text \<open>
  Claim C2, as amended. On an initialized ledger with a prefix configured, every block
  that \<open>add\<close> commits has a digest that starts with the prefix, and that digest is the one
  stored in its row. With no prefix configured \<open>add\<close> makes no search: it always returns,
  the candidate keeps the start nonce, and it succeeds exactly when the candidate passes
  validation and the insert is accepted, whatever the digest looks like. The genesis block
  that \<open>initialize\<close> seeds into an empty table is committed without the search, with nonce
  0 and the digest of its fields, whatever the prefix is.
\<close>

theorem committed_digest_has_prefix:
  assumes "currentBlock s = Some cur"
  shows "(\<forall>p v s'. powHashPrefix s = Some p \<and> add oh rn r s = Some (Inr v, s') \<and> v \<noteq> JBool False \<longrightarrow>
            (\<exists>d. v = JStr d \<and> prefix p d \<and>
                 chain_table s' = chain_table s @ [block_row oh (heap s' r)] \<and>
                 row_hash (block_row oh (heap s' r)) = JStr d)) \<and>
         (powHashPrefix s = None \<longrightarrow>
            (\<exists>res s'. add oh rn r s = Some (res, s') \<and>
                 heap s' = (heap s)(r := build oh (heap s r) (index (heap s cur) + 1)
                                          (JStr (hash oh (heap s cur))) rn) \<and>
                 (res \<noteq> Inr (JBool False) \<longleftrightarrow>
                    r \<noteq> cur \<and> insert_chain (chain_table s) (block_row oh (heap s' r)) \<noteq> None))) \<and>
         (chain_table s0 = [] \<longrightarrow>
            chain_table (initialize oh now True s0) =
              [block_row oh (build oh (new_Block (JStr ''GENBLOCK'') now) 0 (JNum (- 1)) 0)] \<and>
            row_nonce (block_row oh (build oh (new_Block (JStr ''GENBLOCK'') now) 0 (JNum (- 1)) 0)) = 0 \<and>
            row_hash (block_row oh (build oh (new_Block (JStr ''GENBLOCK'') now) 0 (JNum (- 1)) 0)) =
              JStr (oh (JObj (sealed_fields 0 now (JNum (- 1)) (JStr ''GENBLOCK'') 0))))"
proof (intro conjI allI impI)
  fix p v s'
  assume a: "powHashPrefix s = Some p \<and> add oh rn r s = Some (Inr v, s') \<and> v \<noteq> JBool False"
  then have run: "add oh rn r s = Some (Inr v, s')" and ne: "v \<noteq> JBool False"
    and pfx: "powHashPrefix s = Some p" by simp_all
  from add_result[OF assms run] obtain k where
    ex0: "\<And>q. powHashPrefix s = Some q \<Longrightarrow> exit_test q (heap s' r) \<and>
       (\<forall>j<k. \<not> exit_test q (build oh (heap s r) (index (heap s cur) + 1)
                                  (JStr (hash oh (heap s cur))) (rn + int j)))"
    and hp: "heap s' = (heap s)(r := build oh (heap s r) (index (heap s cur) + 1)
                               (JStr (hash oh (heap s cur))) (rn + int k))"
    and ok: "r \<noteq> cur \<and> insert_chain (chain_table s) (block_row oh (heap s' r)) \<noteq> None \<Longrightarrow>
       Inr v = (Inr (JStr (hash oh (heap s' r))) :: error + jsval) \<and> currentBlock s' = Some r \<and>
       chain_table s' = chain_table s @ [block_row oh (heap s' r)]"
    and bad: "r = cur \<or> insert_chain (chain_table s) (block_row oh (heap s' r)) = None \<Longrightarrow>
       Inr v = (Inr (JBool False) :: error + jsval) \<and> currentBlock s' = Some cur \<and>
       chain_table s' = chain_table s"
    by metis
  from ex0[OF pfx] have ex: "exit_test p (heap s' r)" by simp
  from bad ne have "r \<noteq> cur \<and> insert_chain (chain_table s) (block_row oh (heap s' r)) \<noteq> None"
    by auto
  from ok[OF this] have v: "v = JStr (hash oh (heap s' r))"
    and t: "chain_table s' = chain_table s @ [block_row oh (heap s' r)]"
    by simp_all
  have c: "js_get (object (heap s' r)) ''hash'' = v"
    unfolding v by (subst (1 2) hp) simp
  from ex c v have "prefix p (hash oh (heap s' r))" by (simp add: exit_test_iff)
  with v t show "\<exists>d. v = JStr d \<and> prefix p d \<and>
                 chain_table s' = chain_table s @ [block_row oh (heap s' r)] \<and>
                 row_hash (block_row oh (heap s' r)) = JStr d"
    by (intro exI[where x = "hash oh (heap s' r)"]) (simp add: block_row_def)
next
  assume none: "powHashPrefix s = None"
  with add_returns_iff[OF assms, of oh rn r] obtain res s' where run: "add oh rn r s = Some (res, s')"
    by (cases "add oh rn r s") auto
  from add_result[OF assms run] obtain k where
    hp: "heap s' = (heap s)(r := build oh (heap s r) (index (heap s cur) + 1)
                               (JStr (hash oh (heap s cur))) (rn + int k))"
    and k0: "powHashPrefix s = None \<Longrightarrow> k = 0"
    and ok: "r \<noteq> cur \<and> insert_chain (chain_table s) (block_row oh (heap s' r)) \<noteq> None \<Longrightarrow>
       res = Inr (JStr (hash oh (heap s' r))) \<and> currentBlock s' = Some r \<and>
       chain_table s' = chain_table s @ [block_row oh (heap s' r)]"
    and bad: "r = cur \<or> insert_chain (chain_table s) (block_row oh (heap s' r)) = None \<Longrightarrow>
       res = Inr (JBool False) \<and> currentBlock s' = Some cur \<and> chain_table s' = chain_table s"
    by metis
  have "heap s' = (heap s)(r := build oh (heap s r) (index (heap s cur) + 1)
                               (JStr (hash oh (heap s cur))) rn)"
    using hp k0[OF none] by simp
  moreover have "res \<noteq> Inr (JBool False) \<longleftrightarrow>
                    r \<noteq> cur \<and> insert_chain (chain_table s) (block_row oh (heap s' r)) \<noteq> None"
    using ok bad by auto
  ultimately show "\<exists>res s'. add oh rn r s = Some (res, s') \<and>
                 heap s' = (heap s)(r := build oh (heap s r) (index (heap s cur) + 1)
                                          (JStr (hash oh (heap s cur))) rn) \<and>
                 (res \<noteq> Inr (JBool False) \<longleftrightarrow>
                    r \<noteq> cur \<and> insert_chain (chain_table s) (block_row oh (heap s' r)) \<noteq> None)"
    using run by (intro exI[where x = res] exI[where x = s']) simp
qed (simp_all add: initialize_genesis block_row_def hash_build)

text \<open>
  The claim as stated fails on the genesis block: with the prefix \<open>dab\<close> configured,
  \<open>initialize\<close> commits a genesis row whose digest does not start with \<open>dab\<close>.
\<close>

theorem genesis_digest_counterexample:
  "powHashPrefix (initialize toy_hash 1000 True (empty_ledger (Some ''dab''))) = Some ''dab'' \<and>
   map row_hash (chain_table (initialize toy_hash 1000 True (empty_ledger (Some ''dab'')))) =
     [JStr ''6d80''] \<and>
   \<not> prefix ''dab'' ''6d80''"
  using seeded_facts[of "Some ''dab''"] by (simp add: seeded_def)

theorem committed_digest_has_prefix_witness:
  "currentBlock (with_candidate (Some ''0'')) = Some 0 \<and>
   powHashPrefix (with_candidate (Some ''0'')) = Some ''0'' \<and>
   (\<exists>s'. add toy_hash 5 1 (with_candidate (Some ''0'')) = Some (Inr (JStr ''00a5''), s') \<and>
         JStr ''00a5'' \<noteq> JBool False \<and> prefix ''0'' ''00a5'' \<and>
         map row_hash (chain_table s') = [JStr ''6d80'', JStr ''00a5'']) \<and>
   powHashPrefix (with_candidate None) = None \<and>
   (\<exists>s'. add toy_hash 5 1 (with_candidate None) = Some (Inr (JStr ''86aa''), s') \<and>
         nonce (heap s' 1) = 5) \<and>
   chain_table (empty_ledger (Some ''dab'')) = [] \<and>
   map row_nonce (chain_table (initialize toy_hash 1000 True (empty_ledger (Some ''dab'')))) = [0]"
proof -
  have cur: "currentBlock (with_candidate (Some ''0'')) = Some 0"
    and pfx: "powHashPrefix (with_candidate (Some ''0'')) = Some ''0''"
    and cur0: "currentBlock (with_candidate None) = Some 0"
    and pfx0: "powHashPrefix (with_candidate None) = None"
    and tab: "chain_table (with_candidate (Some ''0'')) =
     [\<lparr>row_i = 0, row_hash = JStr ''6d80'', row_previousHash = JStr ''-1'', row_nonce = 0,
       row_timestamp = 1000, row_data = JStr (json_quote ''GENBLOCK'')\<rparr>]"
    by (simp_all add: with_candidate_facts)
  from toy_add_pow obtain s1 where
    s1: "add toy_hash 5 1 (with_candidate (Some ''0'')) = Some (Inr (JStr ''00a5''), s1)"
    by blast
  have ne: "JStr ''00a5'' \<noteq> JBool False" by simp
  note T = committed_digest_has_prefix[OF cur, of toy_hash 5 1]
  from T[THEN conjunct1, rule_format, of "''0''" "JStr ''00a5''" s1] pfx s1 ne
  obtain d where d: "JStr ''00a5'' = JStr d" "prefix ''0'' d"
    "chain_table s1 = chain_table (with_candidate (Some ''0'')) @ [block_row toy_hash (heap s1 1)]"
    "row_hash (block_row toy_hash (heap s1 1)) = JStr d"
    by blast
  then have A: "prefix ''0'' ''00a5''" "map row_hash (chain_table s1) = [JStr ''6d80'', JStr ''00a5'']"
    using tab by simp_all
  from committed_digest_has_prefix[OF cur0, of toy_hash 5 1, THEN conjunct2, THEN conjunct1, rule_format, OF pfx0]
  obtain res s2 where s2: "add toy_hash 5 1 (with_candidate None) = Some (res, s2)"
    "heap s2 = (heap (with_candidate None))(1 := build toy_hash (heap (with_candidate None) 1)
        (index (heap (with_candidate None) 0) + 1) (JStr (hash toy_hash (heap (with_candidate None) 0))) 5)"
    by blast
  from toy_add s2(1) have "res = Inr (JStr ''86aa'')" by auto
  moreover have "nonce (heap s2 1) = 5" using s2(2) by simp
  ultimately have B: "\<exists>s'. add toy_hash 5 1 (with_candidate None) = Some (Inr (JStr ''86aa''), s') \<and>
         nonce (heap s' 1) = 5"
    using s2(1) by (intro exI[where x = s2]) simp
  have e: "chain_table (empty_ledger (Some ''dab'')) = []" by (simp add: empty_ledger_def)
  from committed_digest_has_prefix[OF cur, of toy_hash 5 1 "empty_ledger (Some ''dab'')" 1000,
      THEN conjunct2, THEN conjunct2, rule_format, OF e]
  have C: "map row_nonce (chain_table (initialize toy_hash 1000 True (empty_ledger (Some ''dab'')))) = [0]"
    by simp
  have "\<exists>s'. add toy_hash 5 1 (with_candidate (Some ''0'')) = Some (Inr (JStr ''00a5''), s') \<and>
         JStr ''00a5'' \<noteq> JBool False \<and> prefix ''0'' ''00a5'' \<and>
         map row_hash (chain_table s') = [JStr ''6d80'', JStr ''00a5'']"
    using s1 ne A by (intro exI[where x = s1]) simp
  with cur pfx pfx0 B e C show ?thesis by simp
qed

section \<open>Anchors\<close>

lemma sorted_le_last:
  assumes "sorted (xs :: int list)" and "x \<in> set xs"
  shows "x \<le> last xs"
proof -
  from assms(2) have ne: "xs \<noteq> []" by auto
  then have xs: "xs = butlast xs @ [last xs]" by simp
  from assms(1) have "sorted (butlast xs @ [last xs])" using xs by simp
  then have "\<forall>y\<in>set (butlast xs). y \<le> last xs" by (simp add: sorted_append)
  moreover from assms(2) have "x \<in> set (butlast xs) \<or> x = last xs"
    by (subst (asm) xs) auto
  ultimately show ?thesis by auto
qed

lemma take_1_rev: "ys \<noteq> [] \<Longrightarrow> take 1 (rev ys) = [last ys]"
  by (cases ys rule: rev_cases) simp_all

lemma final_anchor_row_eq:
  "final_anchor_row rows = (if rows = [] then [] else [last (sort_key a_i rows)])"
proof (cases "rows = []")
  case True
  then show ?thesis by (simp add: final_anchor_row_def)
next
  case False
  then have "sort_key a_i rows \<noteq> []" by (metis length_sort length_0_conv)
  then have "take 1 (rev (sort_key a_i rows)) = [last (sort_key a_i rows)]" by (rule take_1_rev)
  then show ?thesis using False by (simp only: final_anchor_row_def if_False)
qed

lemma last_sort_key_max:
  assumes "rows \<noteq> []"
  shows "last (sort_key a_i rows) \<in> set rows \<and> (\<forall>b\<in>set rows. a_i b \<le> a_i (last (sort_key a_i rows)))"
proof -
  let ?ys = "sort_key a_i rows"
  from assms have ne: "?ys \<noteq> []" by (metis length_sort length_0_conv)
  then have "last ?ys \<in> set ?ys" by (rule last_in_set)
  then have m: "last ?ys \<in> set rows" by (simp only: set_sort)
  have "a_i b \<le> a_i (last ?ys)" if "b \<in> set rows" for b
  proof -
    from that have "a_i b \<in> set (map a_i ?ys)" by simp
    then have "a_i b \<le> last (map a_i ?ys)" by (rule sorted_le_last[OF sorted_sort_key])
    then show ?thesis using ne by (simp add: last_map)
  qed
  with m show ?thesis by blast
qed

lemma previous_anchor_Nil [simp]: "previous_anchor [] = (0, JNum (- 1))"
  by (simp add: previous_anchor_def final_anchor_row_eq)

lemma previous_anchor_max:
  assumes "rows \<noteq> []"
  shows "\<exists>a\<in>set rows. previous_anchor rows = (a_i a, a_hash a) \<and> (\<forall>b\<in>set rows. a_i b \<le> a_i a)"
  using last_sort_key_max[OF assms] assms
  by (intro bexI[where x = "last (sort_key a_i rows)"]) (simp_all add: previous_anchor_def final_anchor_row_eq)

lemma previous_anchor_bound:
  "b \<in> set rows \<Longrightarrow> a_i b \<le> fst (previous_anchor rows)"
  using previous_anchor_max[of rows] by (cases "rows = []") auto

lemma previous_anchor_snoc:
  assumes "\<forall>b\<in>set rows. a_i b < a_i x"
  shows "previous_anchor (rows @ [x]) = (a_i x, a_hash x)"
proof -
  from previous_anchor_max[of "rows @ [x]"] obtain a where
    a: "a \<in> set (rows @ [x])" "previous_anchor (rows @ [x]) = (a_i a, a_hash a)"
       "\<forall>b\<in>set (rows @ [x]). a_i b \<le> a_i a"
    by auto
  from a(3) have "a_i x \<le> a_i a" by simp
  with assms a(1) have "a = x" by auto
  with a(2) show ?thesis by simp
qed

lemma select_hashes_empty: "hi \<le> lo \<Longrightarrow> select_hashes rows lo hi = []"
proof -
  assume "hi \<le> lo"
  then have "filter (\<lambda>r. lo < row_i r \<and> row_i r \<le> hi) rows = []" by (auto simp: filter_empty_conv)
  then show ?thesis by (simp add: select_hashes_def)
qed

lemma select_hashes_nonempty: "select_hashes rows lo hi \<noteq> [] \<Longrightarrow> lo < hi"
  using select_hashes_empty[of hi lo rows] by (cases "hi \<le> lo") auto

lemma anchor_eq:
  assumes "currentBlock s = Some cur"
  shows "anchor oh s =
     (if select_hashes (chain_table s) (fst (previous_anchor (anchor_table s))) (index (heap s cur)) \<noteq> [] then
        (case insert_anchor (anchor_table s)
                \<lparr>a_i = index (heap s cur),
                 a_hash = JStr (oh (JArr (select_hashes (chain_table s)
                            (fst (previous_anchor (anchor_table s))) (index (heap s cur))))),
                 a_previousHash = bind_text (snd (previous_anchor (anchor_table s)))\<rparr> of
           None \<Rightarrow> (Inr False, s)
         | Some t \<Rightarrow> (Inr True, s\<lparr>anchor_table := t\<rparr>))
      else (Inr False, s))"
  using assms by (simp add: anchor_def Let_def split: prod.splits)

lemma anchor_success:
  assumes "anchor oh s = (Inr True, s1)"
  obtains cur where "currentBlock s = Some cur"
    "select_hashes (chain_table s) (fst (previous_anchor (anchor_table s))) (index (heap s cur)) \<noteq> []"
    "fst (previous_anchor (anchor_table s)) < index (heap s cur)"
    "s1 = s\<lparr>anchor_table := anchor_table s @
        [\<lparr>a_i = index (heap s cur),
          a_hash = JStr (oh (JArr (select_hashes (chain_table s)
                            (fst (previous_anchor (anchor_table s))) (index (heap s cur))))),
          a_previousHash = bind_text (snd (previous_anchor (anchor_table s)))\<rparr>]\<rparr>"
proof -
  from assms obtain cur where cur: "currentBlock s = Some cur"
    by (cases "currentBlock s") (auto simp: anchor_def Let_def split: prod.splits)
  let ?sel = "select_hashes (chain_table s) (fst (previous_anchor (anchor_table s))) (index (heap s cur))"
  from assms have ne: "?sel \<noteq> []"
    by (auto simp: anchor_eq[OF cur] split: if_splits)
  from assms ne have "s1 = s\<lparr>anchor_table := anchor_table s @
        [\<lparr>a_i = index (heap s cur), a_hash = JStr (oh (JArr ?sel)),
          a_previousHash = bind_text (snd (previous_anchor (anchor_table s)))\<rparr>]\<rparr>"
    by (auto simp: anchor_eq[OF cur] insert_anchor_def split: if_splits option.splits)
  with cur ne select_hashes_nonempty[OF ne] show thesis by (rule that)
qed

lemma anchor_failure: "anchor oh s = (Inr False, s') \<Longrightarrow> s' = s"
  by (cases "currentBlock s")
     (auto simp: anchor_def Let_def split: prod.splits if_splits option.splits)




text \<open>
  Claim C7. Take a successful \<open>anchor()\<close> and the next successful \<open>anchor()\<close>, made in any
  later state whose anchor table is still the one the first call left. Each call appends
  one row, indexed by the head's index at the time. The second row's \<open>previousHash\<close> is
  the first row's digest; its digest is taken over the block rows scanned from the first
  row's index plus one up to its own index, so the two ranges are contiguous and disjoint;
  and when the first call found the anchor table empty its \<open>previousHash\<close> is the sentinel and
  its scan started above index 0.
\<close>

theorem anchors_chain:
  assumes "anchor oh s = (Inr True, s1)" and "anchor_table s2 = anchor_table s1"
    and "anchor oh s2 = (Inr True, s3)"
  shows "\<exists>a1 a2 cur cur2.
      currentBlock s = Some cur \<and> currentBlock s2 = Some cur2 \<and>
      anchor_table s1 = anchor_table s @ [a1] \<and> anchor_table s3 = anchor_table s2 @ [a2] \<and>
      a_i a1 = index (heap s cur) \<and> a_i a2 = index (heap s2 cur2) \<and>
      a_previousHash a2 = a_hash a1 \<and>
      a_hash a2 = JStr (oh (JArr (select_hashes (chain_table s2) (a_i a1) (a_i a2)))) \<and>
      select_hashes (chain_table s2) (a_i a1) (a_i a2) =
        map (\<lambda>r. JObj [(''hash'', row_hash r)])
          (sort_key row_i (filter (\<lambda>r. a_i a1 + 1 \<le> row_i r \<and> row_i r \<le> a_i a2) (chain_table s2))) \<and>
      a_i a1 < a_i a2 \<and>
      (anchor_table s = [] \<longrightarrow>
         a_previousHash a1 = bind_text (JNum (- 1)) \<and>
         a_hash a1 = JStr (oh (JArr (select_hashes (chain_table s) 0 (a_i a1)))))"
proof -
  from anchor_success[OF assms(1)] obtain cur where
    cur: "currentBlock s = Some cur"
    and lt1: "fst (previous_anchor (anchor_table s)) < index (heap s cur)"
    and s1: "s1 = s\<lparr>anchor_table := anchor_table s @
        [\<lparr>a_i = index (heap s cur),
          a_hash = JStr (oh (JArr (select_hashes (chain_table s)
                            (fst (previous_anchor (anchor_table s))) (index (heap s cur))))),
          a_previousHash = bind_text (snd (previous_anchor (anchor_table s)))\<rparr>]\<rparr>"
    by metis
  define a1 where "a1 = \<lparr>a_i = index (heap s cur),
          a_hash = JStr (oh (JArr (select_hashes (chain_table s)
                            (fst (previous_anchor (anchor_table s))) (index (heap s cur))))),
          a_previousHash = bind_text (snd (previous_anchor (anchor_table s)))\<rparr>"
  have t1: "anchor_table s1 = anchor_table s @ [a1]" by (simp add: s1 a1_def)
  have "\<forall>b\<in>set (anchor_table s). a_i b < a_i a1"
    using previous_anchor_bound[of _ "anchor_table s"] lt1 by (fastforce simp: a1_def)
  then have pa: "previous_anchor (anchor_table s2) = (a_i a1, a_hash a1)"
    by (simp add: assms(2) t1 previous_anchor_snoc)
  from anchor_success[OF assms(3)] obtain cur2 where
    cur2: "currentBlock s2 = Some cur2"
    and lt2: "fst (previous_anchor (anchor_table s2)) < index (heap s2 cur2)"
    and s3: "s3 = s2\<lparr>anchor_table := anchor_table s2 @
        [\<lparr>a_i = index (heap s2 cur2),
          a_hash = JStr (oh (JArr (select_hashes (chain_table s2)
                            (fst (previous_anchor (anchor_table s2))) (index (heap s2 cur2))))),
          a_previousHash = bind_text (snd (previous_anchor (anchor_table s2)))\<rparr>]\<rparr>"
    by metis
  define a2 where "a2 = \<lparr>a_i = index (heap s2 cur2),
          a_hash = JStr (oh (JArr (select_hashes (chain_table s2) (a_i a1) (index (heap s2 cur2))))),
          a_previousHash = bind_text (a_hash a1)\<rparr>"
  have t3: "anchor_table s3 = anchor_table s2 @ [a2]" by (simp add: s3 a2_def pa)
  have link: "a_previousHash a2 = a_hash a1" by (simp add: a2_def a1_def)
  have range: "select_hashes (chain_table s2) (a_i a1) (a_i a2) =
        map (\<lambda>r. JObj [(''hash'', row_hash r)])
          (sort_key row_i (filter (\<lambda>r. a_i a1 + 1 \<le> row_i r \<and> row_i r \<le> a_i a2) (chain_table s2)))"
  proof -
    have "(\<lambda>r. a_i a1 < row_i r \<and> row_i r \<le> a_i a2) = (\<lambda>r. a_i a1 + 1 \<le> row_i r \<and> row_i r \<le> a_i a2)"
      by auto
    then show ?thesis unfolding select_hashes_def by (rule arg_cong)
  qed
  have first: "anchor_table s = [] \<longrightarrow>
         a_previousHash a1 = bind_text (JNum (- 1)) \<and>
         a_hash a1 = JStr (oh (JArr (select_hashes (chain_table s) 0 (a_i a1))))"
    by (simp add: a1_def)
  have "currentBlock s = Some cur \<and> currentBlock s2 = Some cur2 \<and>
      anchor_table s1 = anchor_table s @ [a1] \<and> anchor_table s3 = anchor_table s2 @ [a2] \<and>
      a_i a1 = index (heap s cur) \<and> a_i a2 = index (heap s2 cur2) \<and>
      a_previousHash a2 = a_hash a1 \<and>
      a_hash a2 = JStr (oh (JArr (select_hashes (chain_table s2) (a_i a1) (a_i a2)))) \<and>
      select_hashes (chain_table s2) (a_i a1) (a_i a2) =
        map (\<lambda>r. JObj [(''hash'', row_hash r)])
          (sort_key row_i (filter (\<lambda>r. a_i a1 + 1 \<le> row_i r \<and> row_i r \<le> a_i a2) (chain_table s2))) \<and>
      a_i a1 < a_i a2 \<and>
      (anchor_table s = [] \<longrightarrow>
         a_previousHash a1 = bind_text (JNum (- 1)) \<and>
         a_hash a1 = JStr (oh (JArr (select_hashes (chain_table s) 0 (a_i a1)))))"
    using cur cur2 t1 t3 link range first lt2 pa by (simp add: a1_def a2_def)
  then show ?thesis by (intro exI[where x = a1] exI[where x = a2] exI[where x = cur] exI[where x = cur2])
qed

section \<open>Concrete anchors\<close>

lemma toy_anchor_digest_1: "toy_hash (JArr [JObj [(''hash'', JStr ''86aa'')]]) = ''7c36''"
  by code_simp

lemma toy_anchor_digest_2: "toy_hash (JArr [JObj [(''hash'', JStr ''cf75'')]]) = ''4951''"
  by code_simp

lemma toy_digest_second:
  "toy_hash (JObj (sealed_fields 2 1002 (JStr ''86aa'') (JStr ''world'') 0)) = ''cf75''"
  by code_simp

lemma after_add_facts:
  "currentBlock after_add = Some 1"
  "next_ref after_add = 2"
  "powHashPrefix after_add = None"
  "heap after_add =
     blank_heap(0 := build toy_hash (new_Block (JStr ''GENBLOCK'') 1000) 0 (JNum (- 1)) 0,
                1 := build toy_hash (new_Block (JStr ''hello'') 1001) 1 (JStr ''6d80'') 5)"
  "chain_table after_add =
     [\<lparr>row_i = 0, row_hash = JStr ''6d80'', row_previousHash = JStr ''-1'', row_nonce = 0,
       row_timestamp = 1000, row_data = JStr (json_quote ''GENBLOCK'')\<rparr>,
      \<lparr>row_i = 1, row_hash = JStr ''86aa'', row_previousHash = JStr ''6d80'', row_nonce = 5,
       row_timestamp = 1001, row_data = JStr (json_quote ''hello'')\<rparr>]"
  "anchor_table after_add = []"
proof -
  from toy_add obtain s' where
    "add toy_hash 5 1 (with_candidate None) = Some (Inr (JStr ''86aa''), s')"
    "heap s' = (heap (with_candidate None))
                    (1 := build toy_hash (new_Block (JStr ''hello'') 1001) 1 (JStr ''6d80'') 5)"
    "currentBlock s' = Some 1"
    "chain_table s' = chain_table (with_candidate None) @
          [\<lparr>row_i = 1, row_hash = JStr ''86aa'', row_previousHash = JStr ''6d80'', row_nonce = 5,
            row_timestamp = 1001, row_data = JStr (json_quote ''hello'')\<rparr>]"
    "anchor_table s' = []" "next_ref s' = 2" "powHashPrefix s' = None"
    by blast
  then show "currentBlock after_add = Some 1" "next_ref after_add = 2"
    "powHashPrefix after_add = None"
    "heap after_add =
     blank_heap(0 := build toy_hash (new_Block (JStr ''GENBLOCK'') 1000) 0 (JNum (- 1)) 0,
                1 := build toy_hash (new_Block (JStr ''hello'') 1001) 1 (JStr ''6d80'') 5)"
    "chain_table after_add =
     [\<lparr>row_i = 0, row_hash = JStr ''6d80'', row_previousHash = JStr ''-1'', row_nonce = 0,
       row_timestamp = 1000, row_data = JStr (json_quote ''GENBLOCK'')\<rparr>,
      \<lparr>row_i = 1, row_hash = JStr ''86aa'', row_previousHash = JStr ''6d80'', row_nonce = 5,
       row_timestamp = 1001, row_data = JStr (json_quote ''hello'')\<rparr>]"
    "anchor_table after_add = []"
    by (simp_all add: after_add_def with_candidate_facts)
qed

lemma toy_anchor_first:
  "anchor toy_hash after_add =
     (Inr True, after_add\<lparr>anchor_table :=
        [\<lparr>a_i = 1, a_hash = JStr ''7c36'', a_previousHash = JStr ''-1''\<rparr>]\<rparr>)"
  by (simp add: anchor_eq[OF after_add_facts(1)] after_add_facts select_hashes_def
      toy_anchor_digest_1 toy_sentinel_text insert_anchor_def)

lemma after_anchor_facts:
  "currentBlock after_anchor = Some 1"
  "next_ref after_anchor = 2"
  "powHashPrefix after_anchor = None"
  "heap after_anchor = heap after_add"
  "chain_table after_anchor = chain_table after_add"
  "anchor_table after_anchor = [\<lparr>a_i = 1, a_hash = JStr ''7c36'', a_previousHash = JStr ''-1''\<rparr>]"
  by (simp_all add: after_anchor_def toy_anchor_first after_add_facts)

lemma with_second_facts:
  "currentBlock with_second = Some 1"
  "next_ref with_second = 3"
  "powHashPrefix with_second = None"
  "heap with_second = (heap after_add)(2 := new_Block (JStr ''world'') 1002)"
  "chain_table with_second = chain_table after_add"
  "anchor_table with_second = [\<lparr>a_i = 1, a_hash = JStr ''7c36'', a_previousHash = JStr ''-1''\<rparr>]"
  by (simp_all add: with_second_def alloc_Block_def after_anchor_facts)

lemma toy_add_second:
  "\<exists>s'. add toy_hash 0 2 with_second = Some (Inr (JStr ''cf75''), s') \<and>
        heap s' = (heap with_second)
                    (2 := build toy_hash (new_Block (JStr ''world'') 1002) 2 (JStr ''86aa'') 0) \<and>
        currentBlock s' = Some 2 \<and>
        chain_table s' = chain_table with_second @
          [\<lparr>row_i = 2, row_hash = JStr ''cf75'', row_previousHash = JStr ''86aa'', row_nonce = 0,
            row_timestamp = 1002, row_data = JStr (json_quote ''world'')\<rparr>] \<and>
        anchor_table s' = anchor_table with_second \<and> next_ref s' = 3 \<and> powHashPrefix s' = None"
  by (simp add: add_def Let_def with_second_facts after_add_facts proofOfWork_def isValid_def hash_build
      toy_digest_5 toy_digest_second addBlockToChain_def insert_chain_def block_row_def
      json_stringify_def)

lemma after_second_facts:
  "currentBlock after_second = Some 2"
  "index (heap after_second 2) = 2"
  "chain_table after_second = chain_table after_add @
          [\<lparr>row_i = 2, row_hash = JStr ''cf75'', row_previousHash = JStr ''86aa'', row_nonce = 0,
            row_timestamp = 1002, row_data = JStr (json_quote ''world'')\<rparr>]"
  "anchor_table after_second = [\<lparr>a_i = 1, a_hash = JStr ''7c36'', a_previousHash = JStr ''-1''\<rparr>]"
proof -
  from toy_add_second obtain s' where
    "add toy_hash 0 2 with_second = Some (Inr (JStr ''cf75''), s')"
    "heap s' = (heap with_second)
                    (2 := build toy_hash (new_Block (JStr ''world'') 1002) 2 (JStr ''86aa'') 0)"
    "currentBlock s' = Some 2"
    "chain_table s' = chain_table with_second @
          [\<lparr>row_i = 2, row_hash = JStr ''cf75'', row_previousHash = JStr ''86aa'', row_nonce = 0,
            row_timestamp = 1002, row_data = JStr (json_quote ''world'')\<rparr>]"
    "anchor_table s' = anchor_table with_second"
    by blast
  then show "currentBlock after_second = Some 2"
  "index (heap after_second 2) = 2"
  "chain_table after_second = chain_table after_add @
          [\<lparr>row_i = 2, row_hash = JStr ''cf75'', row_previousHash = JStr ''86aa'', row_nonce = 0,
            row_timestamp = 1002, row_data = JStr (json_quote ''world'')\<rparr>]"
  "anchor_table after_second = [\<lparr>a_i = 1, a_hash = JStr ''7c36'', a_previousHash = JStr ''-1''\<rparr>]"
    by (simp_all add: after_second_def with_second_facts)
qed

lemma previous_anchor_single: "previous_anchor [a] = (a_i a, a_hash a)"
  using previous_anchor_snoc[of "[]" a] by simp

lemma toy_anchor_second:
  "anchor toy_hash after_second =
     (Inr True, after_second\<lparr>anchor_table :=
        [\<lparr>a_i = 1, a_hash = JStr ''7c36'', a_previousHash = JStr ''-1''\<rparr>,
         \<lparr>a_i = 2, a_hash = JStr ''4951'', a_previousHash = JStr ''7c36''\<rparr>]\<rparr>)"
  by (simp add: anchor_eq[OF after_second_facts(1)] after_second_facts after_add_facts
      previous_anchor_single select_hashes_def toy_anchor_digest_2 insert_anchor_def)


theorem anchors_chain_witness:
  "anchor toy_hash after_add = (Inr True, after_anchor) \<and>
   anchor_table after_second = anchor_table after_anchor \<and>
   (\<exists>s3. anchor toy_hash after_second = (Inr True, s3) \<and>
     anchor_table s3 =
        [\<lparr>a_i = 1, a_hash = JStr ''7c36'', a_previousHash = JStr ''-1''\<rparr>,
         \<lparr>a_i = 2, a_hash = JStr ''4951'', a_previousHash = JStr ''7c36''\<rparr>])"
proof -
  have first: "anchor toy_hash after_add = (Inr True, after_anchor)"
    by (simp add: after_anchor_def toy_anchor_first)
  have same: "anchor_table after_second = anchor_table after_anchor"
    by (simp add: after_second_facts after_anchor_facts)
  obtain s3 where second: "anchor toy_hash after_second = (Inr True, s3)"
    and t3: "anchor_table s3 =
        [\<lparr>a_i = 1, a_hash = JStr ''7c36'', a_previousHash = JStr ''-1''\<rparr>,
         \<lparr>a_i = 2, a_hash = JStr ''4951'', a_previousHash = JStr ''7c36''\<rparr>]"
    using toy_anchor_second by simp
  from anchors_chain[OF first same second] obtain a1 a2 where
    "anchor_table after_anchor = anchor_table after_add @ [a1]"
    "anchor_table s3 = anchor_table after_second @ [a2]"
    "a_previousHash a2 = a_hash a1"
    by blast
  with first same second t3 show ?thesis by (intro conjI exI[where x = s3]) simp_all
qed

section \<open>Reloading the head\<close>

lemma json_escape_length: "length s \<le> length (concat (map json_escape s))"
proof (induction s)
  case Nil
  then show ?case by simp
next
  case (Cons c s)
  have "1 \<le> length (json_escape c)" by (simp add: json_escape_def)
  with Cons show ?case by simp
qed

lemma json_quote_neq: "json_quote s \<noteq> s"
proof -
  have "length s < length (json_quote s)"
    using json_escape_length[of s] by (simp add: json_quote_def)
  then show ?thesis by auto
qed

lemma stored_payload_neq: "bind_text (json_stringify d) \<noteq> d"
  by (cases d) (simp_all add: json_stringify_def bind_text_def json_quote_neq)

text \<open>
  What \<open>initialize\<close> rebuilds from the final row when that row was written for the block
  \<open>b\<close>: the payload of the new head is the JSON text of the payload of \<open>b\<close>, never the
  payload itself, and the digest of the new head is the hasher's value on the record with
  that text in place of the payload.
\<close>

lemma reload_hashes_json_text:
  assumes "final_chain_row (chain_table s) = block_row oh b # rest"
  shows "data (heap (initialize oh now True s) (next_ref s)) = bind_text (json_stringify (data b))"
    and "data (heap (initialize oh now True s) (next_ref s)) \<noteq> data b"
    and "hash oh (heap (initialize oh now True s) (next_ref s)) =
           oh (JObj (sealed_fields (index b) (timestamp b) (bind_text (previousHash b))
                       (bind_text (json_stringify (data b))) (nonce b)))"
    and "js_get (object (heap (initialize oh now True s) (next_ref s))) ''hash'' =
           JStr (hash oh (heap (initialize oh now True s) (next_ref s)))"
    and "currentBlock (initialize oh now True s) = Some (next_ref s)"
    and "chain_table (initialize oh now True s) = chain_table s"
  by (simp_all add: initialize_reload[OF assms] block_row_def stored_payload_neq hash_def
      js_delete_def js_get_def sealed_fields_def)

lemma toy_digest_reloaded:
  "toy_hash (JObj (sealed_fields 1 1001 (JStr ''6d80'') (JStr (json_quote ''hello'')) 5)) = ''e2ea''"
  by code_simp

lemma toy_final_row:
  "final_chain_row (chain_table (new_Chain None after_add)) =
     [block_row toy_hash (heap after_add 1)]"
  by (simp add: new_Chain_def after_add_facts final_chain_row_def block_row_def hash_build
      toy_digest_5 json_stringify_def)

text \<open>
  Claim C1 fails on the code. The block with payload \<open>hello\<close> is committed by \<open>add\<close> with
  the digest \<open>86aa\<close>, which is the digest stored in the final row. A new \<open>Chain\<close> on the
  same files reloads that row as its head: index, timestamp, \<open>previousHash\<close> and nonce are
  those of the row, but the payload is the row's JSON text (the payload in quotation marks),
  and the recomputed digest of the head is \<open>e2ea\<close>, not the stored \<open>86aa\<close>.
\<close>

theorem reload_digest_differs:
  "currentBlock after_add = Some 1 \<and>
   data (heap after_add 1) = JStr ''hello'' \<and>
   hash toy_hash (heap after_add 1) = ''86aa'' \<and>
   final_chain_row (chain_table after_add) =
     [\<lparr>row_i = 1, row_hash = JStr ''86aa'', row_previousHash = JStr ''6d80'', row_nonce = 5,
       row_timestamp = 1001, row_data = JStr (json_quote ''hello'')\<rparr>] \<and>
   currentBlock reloaded = Some 2 \<and>
   index (heap reloaded 2) = 1 \<and> timestamp (heap reloaded 2) = 1001 \<and>
   previousHash (heap reloaded 2) = JStr ''6d80'' \<and> nonce (heap reloaded 2) = 5 \<and>
   data (heap reloaded 2) = JStr (json_quote ''hello'') \<and>
   hash toy_hash (heap reloaded 2) = ''e2ea'' \<and>
   hash toy_hash (heap reloaded 2) \<noteq> ''86aa''"
proof -
  have fin: "final_chain_row (chain_table after_add) =
     [\<lparr>row_i = 1, row_hash = JStr ''86aa'', row_previousHash = JStr ''6d80'', row_nonce = 5,
       row_timestamp = 1001, row_data = JStr (json_quote ''hello'')\<rparr>]"
    by (simp add: after_add_facts final_chain_row_def)
  then have fin': "final_chain_row (chain_table (new_Chain None after_add)) =
     \<lparr>row_i = 1, row_hash = JStr ''86aa'', row_previousHash = JStr ''6d80'', row_nonce = 5,
       row_timestamp = 1001, row_data = JStr (json_quote ''hello'')\<rparr> # []"
    by (simp add: new_Chain_def)
  have nr: "next_ref (new_Chain None after_add) = 2" by (simp add: new_Chain_def after_add_facts)
  have a: "currentBlock after_add = Some 1" "data (heap after_add 1) = JStr ''hello''"
    "hash toy_hash (heap after_add 1) = ''86aa''"
    by (simp_all add: after_add_facts hash_build toy_digest_5)
  have b: "currentBlock reloaded = Some 2" "index (heap reloaded 2) = 1"
    "timestamp (heap reloaded 2) = 1001" "previousHash (heap reloaded 2) = JStr ''6d80''"
    "nonce (heap reloaded 2) = 5" "data (heap reloaded 2) = JStr (json_quote ''hello'')"
    by (simp_all add: reloaded_def initialize_reload[OF fin'] nr)
  have c: "hash toy_hash (heap reloaded 2) = ''e2ea''"
    by (simp add: reloaded_def initialize_reload[OF fin'] nr hash_def js_delete_def
        sealed_fields_def toy_digest_reloaded[unfolded sealed_fields_def])
  show ?thesis using fin a b c by simp
qed

end
